theory Spec2Isabelle
  imports Main "HOL-Library.Sublist" "HOL-Library.Multiset"
begin

section \<open>The code generation driver \<open>generate.py\<close>\<close>

text \<open>
  The script drives \<open>smithy build\<close> for a list of AWS service models. This theory embeds
  its two functions, \<open>generate\<close> (the pipeline of one unit) and \<open>main\<close> (the scheduler),
  together with the nested helper \<open>snake_case\<close>.

  Python strings are lists of code points; here a \<open>string\<close> is a list of \<open>char\<close>, read
  as the code points 0 to 255.
\<close>

subsection \<open>Strings: what \<open>re.sub\<close>, \<open>str.lower\<close>, \<open>str.replace\<close> and \<open>str.split\<close> compute\<close>

text \<open>The character class \<open>[A-Z]\<close> of the pattern: the code points 65 to 90.\<close>

definition in_A_Z :: "char \<Rightarrow> bool" where
  "in_A_Z c = ((65::nat) \<le> of_char c \<and> (of_char c :: nat) \<le> 90)"

text \<open>
  \<open>re.compile(r"(?<!^)(?=[A-Z])")\<close>: an empty match at position \<open>i\<close> of \<open>x\<close>. The
  lookbehind \<open>(?<!^)\<close> refuses the start of the string (no MULTILINE flag, so \<open>^\<close> is
  position 0 only); the lookahead \<open>(?=[A-Z])\<close> wants a character of \<open>[A-Z]\<close> at \<open>i\<close>,
  so it fails at the end of the string.
\<close>

definition pattern_matches_at :: "string \<Rightarrow> nat \<Rightarrow> bool" where
  "pattern_matches_at x i = (i \<noteq> 0 \<and> i < length x \<and> in_A_Z (x ! i))"

text \<open>
  \<open>pattern.sub(repl, x)\<close>: the engine tries every position 0 to \<open>len(x)\<close>; the pattern
  consumes nothing, so each position yields the replacement (when it matches) followed
  by the character at that position (when there is one).
\<close>

definition pattern_sub :: "string \<Rightarrow> string \<Rightarrow> string" where
  "pattern_sub repl x =
     concat (map (\<lambda>i. (if pattern_matches_at x i then repl else []) @
                       (if i < length x then [x ! i] else []))
                 [0..<Suc (length x)])"

text \<open>
  \<open>str.lower\<close> on the code points 0 to 255: \<open>A\<close> to \<open>Z\<close> and the Latin-1 capitals
  (192 to 222 without the multiplication sign 215) move up by 32, all others stay.
\<close>

definition lower_char :: "char \<Rightarrow> char" where
  "lower_char c =
     (let n = (of_char c :: nat)
      in if (65 \<le> n \<and> n \<le> 90) \<or> (192 \<le> n \<and> n \<le> 222 \<and> n \<noteq> 215)
         then char_of (n + 32) else c)"

definition lower :: "string \<Rightarrow> string" where
  "lower s = map lower_char s"

text \<open>
  \<open>s.replace(old, new)\<close>: every occurrence of \<open>old\<close> found scanning from the left, the
  scan resuming behind each occurrence (so occurrences do not overlap and replaced text
  is not scanned again). With an empty \<open>old\<close> Python puts \<open>new\<close> before every
  character and at the end.
\<close>

function replace :: "string \<Rightarrow> string \<Rightarrow> string \<Rightarrow> string" where
  "replace old new s =
     (if old = [] then new @ concat (map (\<lambda>c. c # new) s)
      else if s = [] then []
      else if prefix old s then new @ replace old new (drop (length old) s)
      else hd s # replace old new (tl s))"
  by pat_completeness auto
termination
  by (relation "measure (\<lambda>(old, new, s). length s)") auto

text \<open>The nested function \<open>snake_case\<close> of \<open>generate\<close>.\<close>

definition snake_case :: "string \<Rightarrow> string" where
  "snake_case x =
     replace ''_d_b'' ''_db''
       (replace ''e_c2'' ''ec2''
         (replace ''a_w_s'' ''aws''
           (lower (pattern_sub ''_'' x))))"

text \<open>
  \<open>s.split(sep)\<close> for a one-character separator: the segments between the
  separators, in order. The result is never empty (\<open>"".split(".")\<close> is \<open>[""]\<close>), so
  the indices \<open>[0]\<close> and \<open>[-1]\<close> the script uses never raise IndexError.
\<close>

fun split :: "char \<Rightarrow> string \<Rightarrow> string list" where
  "split sep [] = [[]]"
| "split sep (c # cs) =
     (if c = sep then [] # split sep cs
      else (case split sep cs of
              [] \<Rightarrow> [[c]]
            | seg # segs \<Rightarrow> (c # seg) # segs))"

text \<open>An f-string prints an \<open>int\<close> in decimal.\<close>

function str_of_nat :: "nat \<Rightarrow> string" where
  "str_of_nat n =
     (if n < 10 then [char_of (48 + n)]
      else str_of_nat (n div 10) @ [char_of (48 + n mod 10)])"
  by pat_completeness auto
termination
  by (relation "measure id") auto

text \<open>\<open>os.path.join(a, b)\<close> and \<open>os.path.basename(p)\<close> of \<open>posixpath\<close>.\<close>

definition path_join :: "string \<Rightarrow> string \<Rightarrow> string" where
  "path_join a b =
     (if b \<noteq> [] \<and> hd b = CHR ''/'' then b
      else if a = [] \<or> last a = CHR ''/'' then a @ b
      else a @ ''/'' @ b)"

definition basename :: "string \<Rightarrow> string" where
  "basename p = last (split (CHR ''/'') p)"

subsection \<open>The constants of the script\<close>

definition INPUT_PATH :: string where "INPUT_PATH = ''api-models-aws-main/models''"
definition OUTPUT_PATH :: string where "OUTPUT_PATH = ''output''"
definition MODEL_DIRNAME :: string where "MODEL_DIRNAME = ''model''"
definition GENERATED_DIRNAME :: string where "GENERATED_DIRNAME = ''generated''"
definition BUILD_DIRNAME :: string where "BUILD_DIRNAME = ''build''"

subsection \<open>The build configuration\<close>

text \<open>
  The Python values that make up \<open>build_json\<close>: strings, lists and dicts (a dict keeps
  its insertion order, so it is an association list).
\<close>

datatype json = JString string | JArray "json list" | JObject "(string \<times> json) list"

text \<open>
  The names derived from the service key:
  \<open>model_name = key.split("#")[0].split(".")[-1]\<close>,
  \<open>module_name = snake_case(model_name)\<close> and \<open>namespace = "aws." + module_name\<close>
  (\<open>module_name\<close> is a keyword of Isabelle, hence the prime).
\<close>

definition model_name :: "string \<Rightarrow> string" where
  "model_name key = last (split (CHR ''.'') (hd (split (CHR ''#'') key)))"

definition module_name' :: "string \<Rightarrow> string" where
  "module_name' key = snake_case (model_name key)"

definition namespace :: "string \<Rightarrow> string" where
  "namespace key = ''aws.'' @ module_name' key"

definition build_json :: "string \<Rightarrow> json" where
  "build_json key =
     JObject
      [(''version'', JString ''1.0''),
       (''sources'', JArray [JString MODEL_DIRNAME]),
       (''maven'', JObject
          [(''dependencies'', JArray
              [JString ''software.amazon.smithy:smithy-aws-traits:1.64.0'',
               JString ''software.amazon.smithy:smithy-aws-endpoints:1.64.0'',
               JString ''software.amazon.smithy:smithy-aws-smoke-test-model:1.64.0'',
               JString ''software.amazon.smithy:smithy-aws-iam-traits:1.64.0'',
               JString ''io.smithy.unison:smithy-unison:0.1.0'']),
           (''repositories'', JArray
              [JObject [(''url'', JString ''https://repo1.maven.org/maven2'')],
               JObject [(''url'', JString ''file://${user.home}/.m2/repository'')]])]),
       (''plugins'', JObject
          [(''unison-codegen'', JObject
              [(''service'', JString key),
               (''name'', JString (model_name key)),
               (''namespace'', JString (namespace key)),
               (''outputDir'', JString GENERATED_DIRNAME)])])]"

text \<open>Reading a member of a dict, and a path of members (as \<open>a.b.c\<close> in the spec).\<close>

fun member :: "string \<Rightarrow> json \<Rightarrow> json option" where
  "member k (JObject kvs) = map_of kvs k"
| "member k _ = None"

fun member_path :: "string list \<Rightarrow> json \<Rightarrow> json option" where
  "member_path [] j = Some j"
| "member_path (k # ks) j = (case member k j of None \<Rightarrow> None | Some v \<Rightarrow> member_path ks v)"

text \<open>
  \<open>json.dumps(obj, indent=2)\<close>, the text \<open>json.dump\<close> writes. Strings are escaped as
  the encoder does with \<open>ensure_ascii\<close>: the quote, the backslash and the five short
  escapes, and a backslash, \<open>u\<close> and four hexadecimal digits for every other character outside space to tilde. Members and
  items are separated by a comma and a new line indented two spaces per level; an empty
  list or dict stays on one line.
\<close>

definition hex_digit :: "nat \<Rightarrow> char" where
  "hex_digit d = (if d < 10 then char_of (48 + d) else char_of (87 + d))"

definition escape_char :: "char \<Rightarrow> string" where
  "escape_char c =
     (let n = (of_char c :: nat)
      in if n = 34 then [CHR 0x5C, CHR 0x22]
         else if n = 92 then [CHR 0x5C, CHR 0x5C]
         else if n = 10 then [CHR 0x5C, CHR ''n'']
         else if n = 13 then [CHR 0x5C, CHR ''r'']
         else if n = 9 then [CHR 0x5C, CHR ''t'']
         else if n = 8 then [CHR 0x5C, CHR ''b'']
         else if n = 12 then [CHR 0x5C, CHR ''f'']
         else if n < 32 \<or> 126 < n
           then [CHR 0x5C, CHR ''u'', CHR ''0'', CHR ''0'', hex_digit (n div 16), hex_digit (n mod 16)]
         else [c])"

definition encode_string :: "string \<Rightarrow> string" where
  "encode_string s = [CHR 0x22] @ concat (map escape_char s) @ [CHR 0x22]"

definition newline_indent :: "nat \<Rightarrow> string" where
  "newline_indent level = CHR 0x0A # replicate (2 * level) CHR '' ''"

fun join :: "string \<Rightarrow> string list \<Rightarrow> string" where
  "join sep [] = []"
| "join sep [x] = x"
| "join sep (x # y # ys) = x @ sep @ join sep (y # ys)"

fun dumps_at :: "nat \<Rightarrow> json \<Rightarrow> string" where
  "dumps_at level (JString s) = encode_string s"
| "dumps_at level (JArray items) =
     (if items = [] then ''[]''
      else ''['' @ newline_indent (Suc level) @
           join ('','' @ newline_indent (Suc level)) (map (dumps_at (Suc level)) items) @
           newline_indent level @ '']'')"
| "dumps_at level (JObject kvs) =
     (if kvs = [] then ''{}''
      else ''{'' @ newline_indent (Suc level) @
           join ('','' @ newline_indent (Suc level))
             (map (\<lambda>kv. encode_string (fst kv) @ '': '' @ dumps_at (Suc level) (snd kv)) kvs) @
           newline_indent level @ ''}'')"

definition dumps :: "json \<Rightarrow> string" where
  "dumps j = dumps_at 0 j"

subsection \<open>The world the script acts on\<close>

text \<open>
  Everything outside the script is explicit. The file system is the set of directories
  and the text of each file, by path (paths are compared as written: the unit ids are
  plain directory names). Every effect is also appended to a trace: the lines printed,
  the shell commands run, the files written, the directories made and removed.

  A printed line is kept by its parts, not as formatted text. The result the script
  prints at the end of a unit is the dict \<open>result\<close>, in insertion order; its entry
  \<open>"time"\<close> holds elapsed wall-clock time and is left out, as are the elapsed times of
  the summary.
\<close>

datatype io_op =
    OpenRead string
  | OpenWrite string
  | Makedirs string
  | CopyFile string string
  | Rmtree string
  | RunShell string

text \<open>
  The exceptions the two functions can meet, all subclasses of \<open>Exception\<close>:
  \<open>OSError\<close> from a file-system call or a process that cannot start,
  \<open>JSONDecodeError\<close> from \<open>json.load\<close>, \<open>StopIteration\<close> from \<open>first()\<close> on an
  empty result, \<open>TypeError\<close> from \<open>None * 4\<close> and \<open>ValueError\<close> from a
  \<open>ThreadPoolExecutor\<close> asked for no workers.
\<close>

datatype error = OSError io_op | JSONDecodeError | StopIteration | TypeError | ValueError

datatype line =
    Building nat nat string
  | NoJsonFiles string
  | ResultLine "(string \<times> string) list"
  | ErrorLine string error
  | Processing nat
  | Using nat "nat option" nat
  | TotalTime

datatype event =
    Printed line
  | Ran string
  | Wrote string
  | MadeDirs string
  | Copied string string
  | Removed string

record world =
  dirs :: "string set"
  files :: "string \<rightharpoonup> string"
  trace :: "event list"

text \<open>
  What the script cannot decide by itself is a parameter of the run:
  \<^item> \<open>glob\<close>: the matches of a pattern, in the order the platform lists them;
  \<^item> \<open>io_fails\<close>: the file-system and process calls that fail with \<open>OSError\<close>
    (permissions, a full disk, a missing program);
  \<^item> \<open>json_loads\<close>: the parser, from the text of a description file to the entries of its
    \<open>shapes\<close> mapping, each with its declared \<open>type\<close>, or \<open>None\<close> when the text is not
    JSON;
  \<^item> \<open>smithy_build\<close>: the external build in a workspace, its exit status and its combined
    output (the artifacts it leaves below the workspace are not tracked);
  \<^item> \<open>ag\<close>: the search \<open>ag "ERROR" -B 1 -A 12 --max-count 0\<close>, from the text of a log to
    what it prints;
  \<^item> \<open>cpu_count\<close>: \<open>os.cpu_count()\<close>, which may be \<open>None\<close>;
  \<^item> \<open>completion\<close>: the order in which the pool completes the tasks (see \<open>as_completed\<close>).
\<close>

record env =
  glob :: "string \<Rightarrow> string list"
  io_fails :: "io_op \<Rightarrow> bool"
  json_loads :: "string \<Rightarrow> (string \<times> string) list option"
  smithy_build :: "string \<Rightarrow> int \<times> string"
  ag :: "string \<Rightarrow> string"
  cpu_count :: "nat option"
  completion :: "nat list"

text \<open>
  A computation either raises or returns, and leaves a world behind in both cases:
  what was done before an exception stays done.
\<close>

type_synonym 'a io = "world \<Rightarrow> (error + 'a) \<times> world"

definition ret :: "'a \<Rightarrow> 'a io" where
  "ret a = (\<lambda>w. (Inr a, w))"

definition raise :: "error \<Rightarrow> 'a io" where
  "raise e = (\<lambda>w. (Inl e, w))"

definition and_then :: "'a io \<Rightarrow> ('a \<Rightarrow> 'b io) \<Rightarrow> 'b io" where
  "and_then m f = (\<lambda>w. case m w of (Inl e, w') \<Rightarrow> (Inl e, w') | (Inr a, w') \<Rightarrow> f a w')"

definition emit :: "event \<Rightarrow> world \<Rightarrow> world" where
  "emit ev w = w\<lparr>trace := trace w @ [ev]\<rparr>"

definition print :: "line \<Rightarrow> unit io" where
  "print l = (\<lambda>w. (Inr (), emit (Printed l) w))"

subsection \<open>File-system and process calls\<close>

text \<open>\<open>open(p, "r")\<close> followed by reading the whole file.\<close>

definition open_read :: "env \<Rightarrow> string \<Rightarrow> string io" where
  "open_read env p =
     (\<lambda>w. if io_fails env (OpenRead p) then (Inl (OSError (OpenRead p)), w)
          else case files w p of
                 None \<Rightarrow> (Inl (OSError (OpenRead p)), w)
               | Some text \<Rightarrow> (Inr text, w))"

text \<open>\<open>open(p, "w")\<close>, writing \<open>text\<close>, closing: a directory cannot be opened.\<close>

definition write_file :: "env \<Rightarrow> string \<Rightarrow> string \<Rightarrow> unit io" where
  "write_file env p text =
     (\<lambda>w. if io_fails env (OpenWrite p) \<or> p \<in> dirs w then (Inl (OSError (OpenWrite p)), w)
          else (Inr (), emit (Wrote p) (w\<lparr>files := (files w)(p \<mapsto> text)\<rparr>)))"

text \<open>
  \<open>os.makedirs(p, exist_ok=True)\<close>: \<open>p\<close> and the directories above it; a file in
  the place of \<open>p\<close> is an error.
\<close>

definition ancestors :: "string \<Rightarrow> string list" where
  "ancestors p = [take i p. i \<leftarrow> [1..<length p], p ! i = CHR ''/''] @ [p]"

definition makedirs :: "env \<Rightarrow> string \<Rightarrow> unit io" where
  "makedirs env p =
     (\<lambda>w. if io_fails env (Makedirs p) \<or> files w p \<noteq> None then (Inl (OSError (Makedirs p)), w)
          else (Inr (), emit (MadeDirs p) (w\<lparr>dirs := dirs w \<union> set (ancestors p)\<rparr>)))"

text \<open>
  \<open>shutil.copy(src, dst)\<close>: into the directory \<open>dst\<close> under the name of \<open>src\<close>, or
  to the file \<open>dst\<close> when \<open>dst\<close> is no directory.
\<close>

definition copy :: "env \<Rightarrow> string \<Rightarrow> string \<Rightarrow> unit io" where
  "copy env src dst =
     (\<lambda>w. let target = (if dst \<in> dirs w then path_join dst (basename src) else dst)
          in if io_fails env (CopyFile src dst) then (Inl (OSError (CopyFile src dst)), w)
             else case files w src of
                    None \<Rightarrow> (Inl (OSError (CopyFile src dst)), w)
                  | Some text \<Rightarrow>
                      (Inr (), emit (Copied src target) (w\<lparr>files := (files w)(target \<mapsto> text)\<rparr>)))"

text \<open>
  \<open>shutil.rmtree(p)\<close>: the directory \<open>p\<close> and all that is below it; it raises when
  \<open>p\<close> is no directory.
\<close>

definition beneath :: "string \<Rightarrow> string \<Rightarrow> bool" where
  "beneath p q = (q = p \<or> prefix (p @ ''/'') q)"

definition rmtree :: "env \<Rightarrow> string \<Rightarrow> unit io" where
  "rmtree env p =
     (\<lambda>w. if io_fails env (Rmtree p) \<or> p \<notin> dirs w then (Inl (OSError (Rmtree p)), w)
          else (Inr (), emit (Removed p)
                  (w\<lparr>dirs := Set.filter (\<lambda>q. \<not> beneath p q) (dirs w),
                     files := (\<lambda>q. if beneath p q then None else files w q)\<rparr>)))"

subsection \<open>The function \<open>generate\<close>\<close>

text \<open>
  The nested function \<open>build(path)\<close>: it prints the progress line, opens the log for
  writing (which empties it), starts \<open>cd path && smithy build\<close> through the shell with
  both output streams on the log, waits, and returns the exit status and the log's path.
\<close>

definition popen_wait :: "env \<Rightarrow> string \<Rightarrow> string \<Rightarrow> string \<Rightarrow> int io" where
  "popen_wait env command path build_log =
     (\<lambda>w. if io_fails env (RunShell command) then (Inl (OSError (RunShell command)), w)
          else (Inr (fst (smithy_build env path)),
                emit (Ran command) (w\<lparr>files := (files w)(build_log \<mapsto> snd (smithy_build env path))\<rparr>)))"

definition build :: "env \<Rightarrow> string \<Rightarrow> nat \<Rightarrow> nat \<Rightarrow> string \<Rightarrow> (int \<times> string) io" where
  "build env sdk_id index total' path =
     and_then (print (Building index total' sdk_id)) (\<lambda>_.
     let command = ''cd '' @ path @ '' && smithy build'';
         build_log = path @ ''/smithy-build.log''
     in and_then (write_file env build_log []) (\<lambda>_.
        and_then (popen_wait env command path build_log) (\<lambda>returncode.
        ret (returncode, build_log))))"

text \<open>
  The nested function \<open>exec(command)\<close>, called once, with the search of the log; the
  caller keeps only what the command printed. The search reads the log, and prints
  nothing when the log is missing.
\<close>

definition ag_command :: "string \<Rightarrow> string" where
  "ag_command build_log = ''ag \"ERROR\" -B 1 -A 12 --max-count 0 '' @ build_log"

definition exec :: "env \<Rightarrow> string \<Rightarrow> string \<Rightarrow> string io" where
  "exec env command build_log =
     (\<lambda>w. if io_fails env (RunShell command) then (Inl (OSError (RunShell command)), w)
          else (Inr (ag env (case files w build_log of None \<Rightarrow> [] | Some text \<Rightarrow> text)),
                emit (Ran command) w))"

text \<open>
  The query \<open>.shapes | to_entries[] | select(.value.type == "service") | .key\<close> and
  \<open>first()\<close>, which raises \<open>StopIteration\<close> when the query yields nothing.
\<close>

definition jq_first :: "(string \<times> string) list \<Rightarrow> string io" where
  "jq_first shapes =
     (case filter (\<lambda>entry. snd entry = ''service'') shapes of
        [] \<Rightarrow> raise StopIteration
      | entry # _ \<Rightarrow> ret (fst entry))"

definition json_load :: "env \<Rightarrow> string \<Rightarrow> (string \<times> string) list io" where
  "json_load env text =
     (case json_loads env text of None \<Rightarrow> raise JSONDecodeError | Some data \<Rightarrow> ret data)"

text \<open>The paths of a unit's workspace, as the f-strings of \<open>generate\<close> build them.\<close>

definition output_path :: "string \<Rightarrow> string" where
  "output_path sdk_id = OUTPUT_PATH @ ''/'' @ sdk_id"

definition build_json_path :: "string \<Rightarrow> string" where
  "build_json_path sdk_id = output_path sdk_id @ ''/smithy-build.json''"

definition model_path :: "string \<Rightarrow> string" where
  "model_path sdk_id = output_path sdk_id @ ''/'' @ MODEL_DIRNAME"

definition build_path :: "string \<Rightarrow> string" where
  "build_path sdk_id = output_path sdk_id @ ''/'' @ BUILD_DIRNAME"

definition errors_path :: "string \<Rightarrow> string" where
  "errors_path sdk_id = output_path sdk_id @ ''/errors.txt''"

definition build_log_path :: "string \<Rightarrow> string" where
  "build_log_path sdk_id = output_path sdk_id @ ''/smithy-build.log''"

text \<open>
  The body of the \<open>with open(source_path, "r")\<close> block (lines 69 to 119): load the
  description, find the service key, make the three directories, copy the description
  into \<open>model/\<close> and write the configuration. It returns the key.
\<close>

definition with_source :: "env \<Rightarrow> string \<Rightarrow> string \<Rightarrow> string io" where
  "with_source env sdk_id source_path =
     and_then (open_read env source_path) (\<lambda>text.
     and_then (json_load env text) (\<lambda>data.
     and_then (jq_first data) (\<lambda>key.
     and_then (makedirs env (output_path sdk_id)) (\<lambda>_.
     and_then (makedirs env (model_path sdk_id)) (\<lambda>_.
     and_then (makedirs env (build_path sdk_id)) (\<lambda>_.
     and_then (copy env source_path (model_path sdk_id)) (\<lambda>_.
     and_then (write_file env (build_json_path sdk_id) (dumps (build_json key))) (\<lambda>_.
     ret key))))))))"

text \<open>
  The rest of the function (lines 121 to 141): build, classify the exit status, on a
  non-zero status search the log and write \<open>errors.txt\<close>, remove \<open>build/\<close>, print the
  result.
\<close>

definition after_source ::
  "env \<Rightarrow> string \<Rightarrow> (string \<times> string) list \<Rightarrow> nat \<Rightarrow> nat \<Rightarrow> (string \<times> string) list io" where
  "after_source env sdk_id result0 index total' =
     and_then (build env sdk_id index total' (output_path sdk_id)) (\<lambda>(build_result, build_log).
     let result = result0 @ [(''build'', if build_result = 0 then ''success'' else ''failed'')]
     in and_then
          (if build_result \<noteq> 0
           then and_then (exec env (ag_command build_log) build_log) (\<lambda>output.
                write_file env (output_path sdk_id @ ''/errors.txt'') output)
           else ret ()) (\<lambda>_.
        and_then (rmtree env (output_path sdk_id @ ''/build'')) (\<lambda>_.
        and_then (print (ResultLine result)) (\<lambda>_.
        ret result))))"

text \<open>
  \<open>generate(sdk_id, index, total)\<close>. Python returns \<open>None\<close> on both ways out; the model
  returns which way was taken, and the result dict on the second.
\<close>

datatype outcome = NoSource | Built "(string \<times> string) list"

definition generate :: "env \<Rightarrow> string \<Rightarrow> nat \<Rightarrow> nat \<Rightarrow> outcome io" where
  "generate env sdk_id index total' =
     (let result0 = [(''sdk_id'', sdk_id),
                     (''process'', str_of_nat index @ ''/'' @ str_of_nat total')];
          path = path_join INPUT_PATH sdk_id;
          json_files = glob env (path @ ''/**/*.json'')
      in case json_files of
           [] \<Rightarrow> and_then (print (NoJsonFiles sdk_id)) (\<lambda>_. ret NoSource)
         | source_path # _ \<Rightarrow>
             and_then (with_source env sdk_id source_path) (\<lambda>key.
             and_then (after_source env sdk_id
                         (result0 @ [(''model'', source_path), (''key'', key),
                                     (''path'', output_path sdk_id)])
                         index total') (\<lambda>result.
             ret (Built result))))"

subsection \<open>The function \<open>main\<close>\<close>

definition sdks :: "string list" where
  "sdks = [''s3'', ''dynamodb'', ''ec2'']"

text \<open>
  \<open>max_workers = min(len(sdks), os.cpu_count() * 4, 64)\<close>; the product raises
  \<open>TypeError\<close> when the count of cores is \<open>None\<close>.
\<close>

definition max_workers :: "env \<Rightarrow> string list \<Rightarrow> error + nat" where
  "max_workers env units =
     (case cpu_count env of
        None \<Rightarrow> Inl TypeError
      | Some cores \<Rightarrow> Inr (min (length units) (min (cores * 4) 64)))"

text \<open>
  The pool runs the tasks on its workers and \<open>as_completed\<close> hands them back as they
  finish, in an order the script does not control. The pipelines of different units
  share no path, so each is run here as one step, in the order of completion. That order
  is any order: each number of \<open>completion\<close> picks one of the tasks still running (modulo
  their count), and when the numbers run out the rest finish in the order of submission.
\<close>

function as_completed :: "nat list \<Rightarrow> 'a list \<Rightarrow> 'a list" where
  "as_completed picks futures =
     (if futures = [] then []
      else case picks of
             [] \<Rightarrow> futures
           | k # ks \<Rightarrow>
               (let i = k mod length futures
                in futures ! i # as_completed ks (take i futures @ drop (Suc i) futures)))"
  by pat_completeness auto
termination
proof (relation "measure (\<lambda>(picks, futures). length futures)", goal_cases)
  case 1
  show ?case by simp
next
  case (2 picks futures k ks i)
  then have "i < length futures" by simp
  then have "length (take i futures @ drop (Suc i) futures) < length futures"
    by (simp add: min_def)
  then show ?case by simp
qed

text \<open>
  The loop over the completed futures: \<open>future.result()\<close> returns or re-raises what the
  task raised; \<open>except Exception\<close> prints the line \<open>ERROR: Failed to generate\<close> with the
  unit and the exception, and the loop goes on.
\<close>

fun collect :: "env \<Rightarrow> nat \<Rightarrow> (string \<times> nat) list \<Rightarrow> world \<Rightarrow> world" where
  "collect env total' [] w = w"
| "collect env total' ((sdk, i) # futures) w =
     (case generate env sdk i total' w of
        (Inl e, w') \<Rightarrow> collect env total' futures (emit (Printed (ErrorLine sdk e)) w')
      | (Inr _, w') \<Rightarrow> collect env total' futures w')"

text \<open>
  \<open>main\<close> with the list of units as a parameter, and \<open>main\<close> itself. A
  \<open>ThreadPoolExecutor\<close> refuses \<open>max_workers = 0\<close> with \<open>ValueError\<close>. The three
  lines of the summary are printed after the \<open>with\<close> block of the pool, that is after
  every task is done.
\<close>

definition run :: "env \<Rightarrow> string list \<Rightarrow> unit io" where
  "run env units =
     (\<lambda>w. case max_workers env units of
            Inl e \<Rightarrow> (Inl e, w)
          | Inr workers \<Rightarrow>
              if workers = 0 then (Inl ValueError, w)
              else let total' = length units;
                       futures = zip units [1..<Suc total'];
                       w' = collect env total' (as_completed (completion env) futures) w
                   in (Inr (),
                       emit (Printed TotalTime)
                         (emit (Printed (Using workers (cpu_count env) 64))
                           (emit (Printed (Processing (length units))) w'))))"

definition main :: "env \<Rightarrow> unit io" where
  "main env = run env sdks"

subsection \<open>Notions of the specification\<close>

text \<open>
  The Name Deriver as the specification words it: an underscore before each uppercase
  letter but the first character of the string.
\<close>

fun internal_underscores :: "string \<Rightarrow> string" where
  "internal_underscores [] = []"
| "internal_underscores (c # cs) =
     (if in_A_Z c then CHR ''_'' # c # internal_underscores cs else c # internal_underscores cs)"

definition insert_underscores :: "string \<Rightarrow> string" where
  "insert_underscores x = (case x of [] \<Rightarrow> [] | c # cs \<Rightarrow> c # internal_underscores cs)"

text \<open>
  The portion of a key before the separator \<open>#\<close>, and the last dot-delimited segment
  of a string.
\<close>

definition before_separator :: "string \<Rightarrow> string" where
  "before_separator key = takeWhile (\<lambda>c. c \<noteq> CHR ''#'') key"

definition last_segment :: "string \<Rightarrow> string" where
  "last_segment p = rev (takeWhile (\<lambda>c. c \<noteq> CHR ''.'') (rev p))"

text \<open>
  Two strings clash when one is a prefix of the other. \<open>clash_free p q\<close>: no non-empty
  suffix of \<open>p\<close> clashes with \<open>q\<close>, so that an occurrence of \<open>p\<close> cannot run into a
  text that starts with \<open>q\<close>.
\<close>

fun clash_free :: "string \<Rightarrow> string \<Rightarrow> bool" where
  "clash_free [] q = True"
| "clash_free (x # p) q =
     (\<not> prefix (x # p) q \<and> \<not> prefix q (x # p) \<and> clash_free p q)"

text \<open>A character that \<open>lower\<close> keeps and that the pattern does not match.\<close>

definition settled :: "char \<Rightarrow> bool" where
  "settled c = (lower_char c = c \<and> \<not> in_A_Z c)"

text \<open>
  The terminal outcome a printed line reports for a unit: the line \<open>No JSON files
  found\<close> is Skipped, the printed result is Succeeded or Failed by its entry
  \<open>"build"\<close>, the line \<open>ERROR: Failed to generate\<close> is Errored.
\<close>

datatype status = Succeeded | Failed | Skipped | Errored

fun terminal :: "event \<Rightarrow> (string \<times> status) option" where
  "terminal (Printed (NoJsonFiles sdk)) = Some (sdk, Skipped)"
| "terminal (Printed (ResultLine result)) =
     (case map_of result ''sdk_id'' of
        None \<Rightarrow> None
      | Some sdk \<Rightarrow>
          Some (sdk, if map_of result ''build'' = Some ''success'' then Succeeded else Failed))"
| "terminal (Printed (ErrorLine sdk e)) = Some (sdk, Errored)"
| "terminal _ = None"

fun reports :: "event list \<Rightarrow> (string \<times> status) list" where
  "reports [] = []"
| "reports (ev # evs) =
     (case terminal ev of None \<Rightarrow> reports evs | Some r \<Rightarrow> r # reports evs)"

text \<open>What a step added to the trace.\<close>

definition new_events :: "world \<Rightarrow> world \<Rightarrow> event list" where
  "new_events w w' = drop (length (trace w)) (trace w')"

text \<open>
  A computation is quiet when it only appends to the trace and what it appends reports
  no terminal outcome; it is quiet unless done when it only appends and what it appends
  reports no terminal outcome whenever it raises.
\<close>

definition quiet :: "'a io \<Rightarrow> bool" where
  "quiet m = (\<forall>w. \<exists>evs. trace (snd (m w)) = trace w @ evs \<and> reports evs = [])"

definition quiet_unless_done :: "'a io \<Rightarrow> bool" where
  "quiet_unless_done m =
     (\<forall>w. \<exists>evs. trace (snd (m w)) = trace w @ evs \<and> (isl (fst (m w)) \<longrightarrow> reports evs = []))"

text \<open>The pattern \<open>generate\<close> hands to \<open>glob\<close>, and the result dict before the build.\<close>

definition glob_pattern :: "string \<Rightarrow> string" where
  "glob_pattern sdk_id = path_join INPUT_PATH sdk_id @ ''/**/*.json''"

definition result_head :: "string \<Rightarrow> nat \<Rightarrow> nat \<Rightarrow> string \<Rightarrow> string \<Rightarrow> (string \<times> string) list" where
  "result_head sdk_id index total' source_path key =
     [(''sdk_id'', sdk_id), (''process'', str_of_nat index @ ''/'' @ str_of_nat total'),
      (''model'', source_path), (''key'', key), (''path'', output_path sdk_id)]"

text \<open>
  The description \<open>generate\<close> uses (\<open>json_files[0]\<close>) and the service key it finds in
  it; both are meant for a unit whose pipeline gets that far.
\<close>

definition source_of :: "env \<Rightarrow> string \<Rightarrow> string" where
  "source_of env sdk_id = hd (glob env (glob_pattern sdk_id))"

definition service_key :: "env \<Rightarrow> world \<Rightarrow> string \<Rightarrow> string" where
  "service_key env w sdk_id =
     fst (hd (filter (\<lambda>entry. snd entry = ''service'')
                (the (json_loads env (the (files w (source_of env sdk_id)))))))"

text \<open>The exit status and the output of the build of a unit.\<close>

definition build_status :: "env \<Rightarrow> string \<Rightarrow> int" where
  "build_status env sdk_id = fst (smithy_build env (output_path sdk_id))"

definition build_output :: "env \<Rightarrow> string \<Rightarrow> string" where
  "build_output env sdk_id = snd (smithy_build env (output_path sdk_id))"

subsection \<open>A concrete run\<close>

text \<open>
  The unit \<open>s3\<close> with one description file that declares a structure and the service
  \<open>com.amazonaws.s3#AmazonS3\<close>; the other two units of \<open>sdks\<close> have no description.
  The parameters of the example are the calls that fail, the text of the description,
  and the exit status of the build, which writes one line to its log. The search finds
  nothing. There are two cores, and the pool completes the third task first.
\<close>

definition s3_source :: string where
  "s3_source = ''api-models-aws-main/models/s3/service/2006-03-01/s3-2006-03-01.json''"

definition s3_text :: string where
  "s3_text = ''{ shapes }''"

definition example_env :: "(io_op \<Rightarrow> bool) \<Rightarrow> int \<Rightarrow> env" where
  "example_env failing status =
     \<lparr> glob = (\<lambda>pattern. if pattern = ''api-models-aws-main/models/s3/**/*.json''
                         then [s3_source] else []),
       io_fails = failing,
       json_loads = (\<lambda>text. if text = s3_text
                            then Some [(''com.amazonaws.s3#Bucket'', ''structure''),
                                       (''com.amazonaws.s3#AmazonS3'', ''service'')]
                            else None),
       smithy_build = (\<lambda>path. (status, ''ERROR: missing trait'')),
       ag = (\<lambda>log. []),
       cpu_count = Some 2,
       completion = [2, 0] \<rparr>"

definition example_world :: "string \<Rightarrow> world" where
  "example_world text = \<lparr> dirs = {}, files = [s3_source \<mapsto> text], trace = [] \<rparr>"

definition s3_result :: "string \<Rightarrow> (string \<times> string) list" where
  "s3_result b =
     [(''sdk_id'', ''s3''), (''process'', ''1/3''), (''model'', s3_source),
      (''key'', ''com.amazonaws.s3#AmazonS3''), (''path'', ''output/s3''), (''build'', b)]"

text \<open>
  The calls that fail: none, the copy of the description into \<open>model/\<close>, or the
  opening of \<open>errors.txt\<close> for writing.
\<close>

definition nothing_fails :: "io_op \<Rightarrow> bool" where
  "nothing_fails op = False"

definition copy_fails :: "io_op \<Rightarrow> bool" where
  "copy_fails op = (op = CopyFile s3_source ''output/s3/model'')"

definition errors_write_fails :: "io_op \<Rightarrow> bool" where
  "errors_write_fails op = (op = OpenWrite ''output/s3/errors.txt'')"

section \<open>The Name Deriver\<close>

declare replace.simps [simp del]

subsection \<open>The substitution inserts the underscores the specification describes\<close>

lemma internal_underscores_concat:
  "internal_underscores cs = concat (map (\<lambda>c. (if in_A_Z c then ''_'' else []) @ [c]) cs)"
  by (induction cs) simp_all

lemma pattern_sub_pieces:
  "map (\<lambda>i. (if pattern_matches_at (c # cs) i then r else []) @
            (if i < length (c # cs) then [(c # cs) ! i] else []))
       [0..<Suc (length (c # cs))]
   = ([c] # map (\<lambda>c. (if in_A_Z c then r else []) @ [c]) cs) @ [[]]"
  by (rule nth_equalityI)
     (auto simp: pattern_matches_at_def nth_Cons nth_append less_Suc_eq
           split: nat.splits simp del: upt_Suc)

lemma pattern_sub_insert: "pattern_sub ''_'' x = insert_underscores x"
proof (cases x)
  case Nil
  then show ?thesis
    by (simp add: pattern_sub_def insert_underscores_def pattern_matches_at_def)
next
  case (Cons c cs)
  show ?thesis
    unfolding pattern_sub_def Cons pattern_sub_pieces
    by (simp add: insert_underscores_def internal_underscores_concat)
qed

subsection \<open>One step of \<open>replace\<close>\<close>

lemma replace_Nil: "old \<noteq> [] \<Longrightarrow> replace old new [] = []"
  by (subst replace.simps) simp

lemma replace_hit:
  "old \<noteq> [] \<Longrightarrow> prefix old s \<Longrightarrow>
   replace old new s = new @ replace old new (drop (length old) s)"
  by (subst replace.simps) auto

lemma replace_miss:
  "old \<noteq> [] \<Longrightarrow> \<not> prefix old (c # cs) \<Longrightarrow>
   replace old new (c # cs) = c # replace old new cs"
  by (subst replace.simps) simp

text \<open>Induction along the scan: the text is empty, starts with \<open>old\<close>, or does not.\<close>

lemma replace_cases [case_names Nil hit miss]:
  assumes "old \<noteq> []"
    and "P []"
    and "\<And>s. prefix old s \<Longrightarrow> P (drop (length old) s) \<Longrightarrow> P s"
    and "\<And>c cs. \<not> prefix old (c # cs) \<Longrightarrow> P cs \<Longrightarrow> P (c # cs)"
  shows "P s"
proof (induction s rule: length_induct)
  case (1 s)
  show ?case
  proof (cases s)
    case Nil
    then show ?thesis using assms(2) by simp
  next
    case (Cons c cs)
    show ?thesis
    proof (cases "prefix old s")
      case True
      have "length (drop (length old) s) < length s"
        using assms(1) Cons by simp
      then show ?thesis using 1 assms(3) True by blast
    next
      case False
      then show ?thesis using 1 assms(4) Cons by simp
    qed
  qed
qed

lemma replace_absent:
  assumes "old \<noteq> []" and "\<not> sublist old s"
  shows "replace old new s = s"
  using assms(2)
proof (induction s)
  case Nil
  then show ?case using assms(1) by (simp add: replace_Nil)
next
  case (Cons c cs)
  then have "\<not> prefix old (c # cs)" and "\<not> sublist old cs"
    by (auto simp: sublist_Cons_right)
  then show ?case using Cons.IH assms(1) by (simp add: replace_miss)
qed

lemma set_replace:
  assumes "old \<noteq> []"
  shows "set (replace old new s) \<subseteq> set s \<union> set new"
proof (induction s rule: replace_cases[OF assms(1)])
  case 1
  then show ?case using assms by (simp add: replace_Nil)
next
  case (2 s)
  have a: "set (drop (length old) s) \<subseteq> set s" by (rule set_drop_subset)
  have b: "replace old new s = new @ replace old new (drop (length old) s)"
    using 2(1) assms by (rule replace_hit[rotated])
  show ?case unfolding b using 2(2) a by auto
next
  case (3 c cs)
  have b: "replace old new (c # cs) = c # replace old new cs"
    using assms 3(1) by (rule replace_miss)
  show ?case unfolding b using 3(2) by auto
qed

subsection \<open>Occurrences of a pattern in the result of \<open>replace\<close>\<close>

text \<open>
  When no suffix of \<open>p\<close> clashes with \<open>new\<close>, a result that starts with \<open>p\<close> comes
  from a text that starts with \<open>p\<close>: no replacement took place inside the prefix.
\<close>

lemma clash_free_prefix:
  assumes "old \<noteq> []"
  shows "clash_free p new \<Longrightarrow> prefix p (replace old new s) \<Longrightarrow> prefix p s"
proof (induction s arbitrary: p rule: replace_cases[OF assms])
  case 1
  then show ?case by (simp add: replace_Nil assms)
next
  case (2 s)
  show ?case
  proof (cases p)
    case Nil
    then show ?thesis by simp
  next
    case (Cons x p')
    from 2(4) have "prefix p (new @ replace old new (drop (length old) s))"
      using 2(1) assms by (simp add: replace_hit)
    then have "prefix p new \<or> prefix new p"
      by (auto simp: prefix_append)
    then show ?thesis using 2(3) Cons by simp
  qed
next
  case (3 c cs)
  show ?case
  proof (cases p)
    case Nil
    then show ?thesis by simp
  next
    case (Cons x p')
    then show ?thesis using 3 assms by (simp add: replace_miss)
  qed
qed

lemma sublist_drop: "sublist p (drop n s) \<Longrightarrow> sublist p s"
proof -
  assume "sublist p (drop n s)"
  then obtain ps ss where "drop n s = ps @ p @ ss"
    by (auto simp: sublist_def)
  then have "s = (take n s @ ps) @ p @ ss"
    by (metis append_take_drop_id append_assoc)
  then show ?thesis unfolding sublist_def by blast
qed

text \<open>An occurrence of \<open>p\<close> in \<open>new @ t\<close> lies in \<open>t\<close> when no suffix of \<open>new\<close> clashes with \<open>p\<close>.\<close>

lemma clash_free_straddle:
  "clash_free new p \<Longrightarrow> p \<noteq> [] \<Longrightarrow> sublist p (new @ t) \<Longrightarrow> sublist p t"
proof (induction new)
  case Nil
  then show ?case by simp
next
  case (Cons a new)
  from Cons.prems(3) have "prefix p (a # new @ t) \<or> sublist p (new @ t)"
    by (simp add: sublist_Cons_right)
  moreover have "\<not> prefix p (a # new @ t)"
  proof
    assume "prefix p (a # new @ t)"
    then have "prefix p ((a # new) @ t)" by simp
    then have "prefix p (a # new) \<or> prefix (a # new) p"
      unfolding prefix_append by auto
    then show False using Cons.prems(1) by simp
  qed
  ultimately show ?case using Cons by simp
qed

lemma replace_no_new_occurrence:
  assumes "old \<noteq> []" "p \<noteq> []" "clash_free p new" "clash_free new p"
  shows "sublist p (replace old new s) \<Longrightarrow> sublist p s"
proof (induction s rule: replace_cases[OF assms(1)])
  case 1
  then show ?case by (simp add: replace_Nil assms)
next
  case (2 s)
  from 2(3) have "sublist p (new @ replace old new (drop (length old) s))"
    using 2(1) assms(1) by (simp add: replace_hit)
  then have "sublist p (replace old new (drop (length old) s))"
    using clash_free_straddle assms by blast
  then show ?case using 2(2) sublist_drop by blast
next
  case (3 c cs)
  from 3(3) have "prefix p (replace old new (c # cs)) \<or> sublist p (replace old new cs)"
    using 3(1) assms(1) by (simp add: replace_miss sublist_Cons_right)
  then show ?case
    using clash_free_prefix[OF assms(1,3)] 3(2) by (auto simp: sublist_Cons_right)
qed

lemma replace_removes_all:
  assumes "old \<noteq> []" "clash_free old new" "clash_free new old"
  shows "\<not> sublist old (replace old new s)"
proof (induction s rule: replace_cases[OF assms(1)])
  case 1
  then show ?case using assms(1) by (simp add: replace_Nil)
next
  case (2 s)
  show ?case
  proof
    assume "sublist old (replace old new s)"
    then have "sublist old (new @ replace old new (drop (length old) s))"
      using 2(1) assms(1) by (simp add: replace_hit)
    then have "sublist old (replace old new (drop (length old) s))"
      by (rule clash_free_straddle[OF assms(3,1)])
    then show False using 2(2) by simp
  qed
next
  case (3 c cs)
  show ?case
  proof
    assume "sublist old (replace old new (c # cs))"
    then have "sublist old (c # replace old new cs)"
      using 3(1) assms(1) by (simp add: replace_miss)
    then have "prefix old (c # replace old new cs)"
      using 3(2) by (simp add: sublist_Cons_right)
    then have "prefix old (replace old new (c # cs))"
      using 3(1) assms(1) by (simp add: replace_miss)
    then have "prefix old (c # cs)"
      by (rule clash_free_prefix[OF assms(1,2)])
    then show False using 3(1) by simp
  qed
qed

subsection \<open>The output of \<open>snake_case\<close>\<close>

lemma settled_lower_char: "settled (lower_char c)"
proof -
  let ?n = "of_char c :: nat"
  show ?thesis
  proof (cases "(65 \<le> ?n \<and> ?n \<le> 90) \<or> (192 \<le> ?n \<and> ?n \<le> 222 \<and> ?n \<noteq> 215)")
    case True
    then have lc: "lower_char c = char_of (?n + 32)"
      by (simp add: lower_char_def Let_def)
    have m: "(of_char (char_of (?n + 32)) :: nat) = ?n + 32"
    proof -
      have "?n + 32 < 256" using True by auto
      then show ?thesis by (simp only: of_char_of mod_less)
    qed
    show ?thesis unfolding settled_def lc
      using True m by (auto simp add: lower_char_def in_A_Z_def Let_def simp del: of_char_of)
  next
    case False
    then have "lower_char c = c" and "\<not> in_A_Z c"
      by (auto simp add: lower_char_def in_A_Z_def Let_def)
    then show ?thesis
      by (simp add: settled_def)
  qed
qed

lemma settled_literals:
  "\<forall>c \<in> set ''aws''. settled c" "\<forall>c \<in> set ''ec2''. settled c" "\<forall>c \<in> set ''_db''. settled c"
  by (simp_all add: settled_def lower_char_def in_A_Z_def Let_def)

lemma settled_replace:
  assumes "old \<noteq> []" "\<forall>c \<in> set new. settled c" "\<forall>c \<in> set s. settled c"
  shows "\<forall>c \<in> set (replace old new s). settled c"
  using set_replace[OF assms(1), of new s] assms(2,3) by blast

lemma settled_snake_case: "\<forall>c \<in> set (snake_case x). settled c"
  unfolding snake_case_def
  by (intro settled_replace settled_literals) (simp_all add: lower_def settled_lower_char)

lemma internal_underscores_settled:
  "\<forall>c \<in> set cs. settled c \<Longrightarrow> internal_underscores cs = cs"
  by (induction cs) (simp_all add: settled_def)

lemma pattern_sub_settled:
  assumes "\<forall>c \<in> set y. settled c"
  shows "pattern_sub ''_'' y = y"
  using assms internal_underscores_settled[of "tl y"]
  by (cases y) (simp_all add: pattern_sub_insert insert_underscores_def)

lemma lower_settled: "\<forall>c \<in> set y. settled c \<Longrightarrow> lower y = y"
  by (simp add: lower_def settled_def map_idI)

lemma snake_case_free:
  "\<not> sublist ''a_w_s'' (snake_case x)"
  "\<not> sublist ''e_c2'' (snake_case x)"
  "\<not> sublist ''_d_b'' (snake_case x)"
proof -
  let ?l = "lower (pattern_sub ''_'' x)"
  let ?r1 = "replace ''a_w_s'' ''aws'' ?l"
  let ?r2 = "replace ''e_c2'' ''ec2'' ?r1"
  have 1: "\<not> sublist ''a_w_s'' ?r1"
    by (rule replace_removes_all) simp_all
  have 2: "\<not> sublist ''a_w_s'' ?r2"
    using 1 replace_no_new_occurrence[of "''e_c2''" "''a_w_s''" "''ec2''" ?r1] by auto
  show "\<not> sublist ''a_w_s'' (snake_case x)"
    unfolding snake_case_def
    using 2 replace_no_new_occurrence[of "''_d_b''" "''a_w_s''" "''_db''" ?r2] by auto
  have 3: "\<not> sublist ''e_c2'' ?r2"
    by (rule replace_removes_all) simp_all
  show "\<not> sublist ''e_c2'' (snake_case x)"
    unfolding snake_case_def
    using 3 replace_no_new_occurrence[of "''_d_b''" "''e_c2''" "''_db''" ?r2] by auto
  show "\<not> sublist ''_d_b'' (snake_case x)"
    unfolding snake_case_def
    by (rule replace_removes_all) simp_all
qed

text \<open>
  Claim C2. For every identifier the Name Deriver returns the string with an underscore
  before each internal uppercase letter (none before the first character), lowercased,
  with the three replacements \<open>a_w_s\<close> to \<open>aws\<close>, \<open>e_c2\<close> to \<open>ec2\<close> and \<open>_d_b\<close> to
  \<open>_db\<close> applied in that order; \<open>DynamoDB\<close> gives \<open>dynamo_db\<close> and \<open>AWSLambda\<close> gives
  \<open>aws_lambda\<close>. The function is total: the equation holds for every string, the empty
  one included.
\<close>

theorem snake_case_as_specified:
  "snake_case x =
     replace ''_d_b'' ''_db''
       (replace ''e_c2'' ''ec2''
         (replace ''a_w_s'' ''aws'' (lower (insert_underscores x))))
   \<and> snake_case ''DynamoDB'' = ''dynamo_db''
   \<and> snake_case ''AWSLambda'' = ''aws_lambda''"
proof -
  have "snake_case ''DynamoDB'' = ''dynamo_db''" by code_simp
  moreover have "snake_case ''AWSLambda'' = ''aws_lambda''" by code_simp
  ultimately show ?thesis
    by (simp add: snake_case_def pattern_sub_insert)
qed

text \<open>
  Claim C10. The Name Deriver is idempotent: its output holds no character the pattern
  matches or \<open>lower\<close> changes, and none of the three search strings, so a second run
  changes nothing.
\<close>

theorem snake_case_idempotent: "snake_case (snake_case x) = snake_case x"
proof -
  let ?y = "snake_case x"
  have s: "\<forall>c \<in> set ?y. settled c" by (rule settled_snake_case)
  have "snake_case ?y =
     replace ''_d_b'' ''_db'' (replace ''e_c2'' ''ec2'' (replace ''a_w_s'' ''aws''
       (lower (pattern_sub ''_'' ?y))))"
    by (simp only: snake_case_def)
  also have "\<dots> = replace ''_d_b'' ''_db'' (replace ''e_c2'' ''ec2'' (replace ''a_w_s'' ''aws'' ?y))"
    using s by (simp only: pattern_sub_settled lower_settled)
  also have "\<dots> = replace ''_d_b'' ''_db'' (replace ''e_c2'' ''ec2'' ?y)"
    using snake_case_free(1)[of x] by (simp add: replace_absent)
  also have "\<dots> = replace ''_d_b'' ''_db'' ?y"
    using snake_case_free(2)[of x] by (simp add: replace_absent)
  also have "\<dots> = ?y"
    using snake_case_free(3)[of x] by (simp add: replace_absent)
  finally show ?thesis .
qed

section \<open>The pipeline of one unit\<close>

subsection \<open>When a step returns\<close>

lemma and_then_Inr:
  "and_then m f w = (Inr b, w'') \<longleftrightarrow> (\<exists>a w'. m w = (Inr a, w') \<and> f a w' = (Inr b, w''))"
  by (auto simp: and_then_def split: prod.splits sum.splits)

lemma ret_Inr: "ret a w = (Inr b, w') \<longleftrightarrow> (b = a \<and> w' = w)"
  by (auto simp: ret_def)

lemma print_Inr: "print l w = (Inr u, w') \<longleftrightarrow> w' = emit (Printed l) w"
  by (auto simp: print_def)

lemma makedirs_Inr:
  "makedirs env p w = (Inr u, w') \<longleftrightarrow>
     (\<not> io_fails env (Makedirs p) \<and> files w p = None \<and>
      w' = emit (MadeDirs p) (w\<lparr>dirs := dirs w \<union> set (ancestors p)\<rparr>))"
  by (auto simp: makedirs_def)

lemma write_file_Inr:
  "write_file env p text w = (Inr u, w') \<longleftrightarrow>
     (\<not> io_fails env (OpenWrite p) \<and> p \<notin> dirs w \<and>
      w' = emit (Wrote p) (w\<lparr>files := (files w)(p \<mapsto> text)\<rparr>))"
  by (auto simp: write_file_def)

lemma open_read_Inr:
  "open_read env p w = (Inr text, w') \<longleftrightarrow>
     (\<not> io_fails env (OpenRead p) \<and> files w p = Some text \<and> w' = w)"
  by (auto simp: open_read_def split: option.splits)

lemma json_load_Inr:
  "json_load env text w = (Inr data, w') \<longleftrightarrow> (json_loads env text = Some data \<and> w' = w)"
  by (auto simp: json_load_def raise_def ret_def split: option.splits)

lemma jq_first_Inr:
  "jq_first shapes w = (Inr key, w') \<longleftrightarrow>
     (\<exists>entry rest. filter (\<lambda>entry. snd entry = ''service'') shapes = entry # rest \<and>
        key = fst entry \<and> w' = w)"
  by (auto simp: jq_first_def raise_def ret_def split: list.splits)

lemma copy_Inr:
  "copy env src dst w = (Inr u, w') \<longleftrightarrow>
     (\<not> io_fails env (CopyFile src dst) \<and>
      (\<exists>text. files w src = Some text \<and>
         w' = emit (Copied src (if dst \<in> dirs w then path_join dst (basename src) else dst))
                (w\<lparr>files := (files w)((if dst \<in> dirs w then path_join dst (basename src) else dst)
                                          \<mapsto> text)\<rparr>)))"
  by (auto simp: copy_def Let_def split: option.splits)

lemma rmtree_Inr:
  "rmtree env p w = (Inr u, w') \<longleftrightarrow>
     (\<not> io_fails env (Rmtree p) \<and> p \<in> dirs w \<and>
      w' = emit (Removed p)
             (w\<lparr>dirs := Set.filter (\<lambda>q. \<not> beneath p q) (dirs w),
                files := (\<lambda>q. if beneath p q then None else files w q)\<rparr>))"
  by (auto simp: rmtree_def)

lemma popen_wait_Inr:
  "popen_wait env command path build_log w = (Inr rc, w') \<longleftrightarrow>
     (\<not> io_fails env (RunShell command) \<and> rc = fst (smithy_build env path) \<and>
      w' = emit (Ran command) (w\<lparr>files := (files w)(build_log \<mapsto> snd (smithy_build env path))\<rparr>))"
  by (auto simp: popen_wait_def)

lemma exec_Inr:
  "exec env command build_log w = (Inr output, w') \<longleftrightarrow>
     (\<not> io_fails env (RunShell command) \<and>
      output = ag env (case files w build_log of None \<Rightarrow> [] | Some text \<Rightarrow> text) \<and>
      w' = emit (Ran command) w)"
  by (auto simp: exec_def)

lemmas io_Inr = and_then_Inr ret_Inr print_Inr makedirs_Inr write_file_Inr open_read_Inr
  json_load_Inr jq_first_Inr copy_Inr rmtree_Inr popen_wait_Inr exec_Inr

lemma self_in_ancestors: "p \<in> set (ancestors p)"
  by (simp add: ancestors_def)

subsection \<open>The world after the two halves of \<open>generate\<close>\<close>

lemma with_source_Inr:
  assumes "with_source env sdk_id source_path w = (Inr key, w')"
  shows "\<exists>text data entry rest.
           files w source_path = Some text \<and> json_loads env text = Some data \<and>
           filter (\<lambda>entry. snd entry = ''service'') data = entry # rest \<and> key = fst entry \<and>
           dirs w' = dirs w \<union> set (ancestors (output_path sdk_id))
                      \<union> set (ancestors (model_path sdk_id)) \<union> set (ancestors (build_path sdk_id)) \<and>
           files w' = (files w)(path_join (model_path sdk_id) (basename source_path) \<mapsto> text,
                                build_json_path sdk_id \<mapsto> dumps (build_json key)) \<and>
           trace w' = trace w @
             [MadeDirs (output_path sdk_id), MadeDirs (model_path sdk_id), MadeDirs (build_path sdk_id),
              Copied source_path (path_join (model_path sdk_id) (basename source_path)),
              Wrote (build_json_path sdk_id)]"
  using assms unfolding with_source_def io_Inr
  by (auto simp: emit_def self_in_ancestors)

lemma build_Inr:
  assumes "build env sdk_id index total' path w = (Inr (rc, build_log), w')"
  shows "rc = fst (smithy_build env path) \<and> build_log = path @ ''/smithy-build.log'' \<and>
         dirs w' = dirs w \<and>
         files w' = (files w)(build_log \<mapsto> snd (smithy_build env path)) \<and>
         trace w' = trace w @ [Printed (Building index total' sdk_id), Wrote build_log,
                               Ran (''cd '' @ path @ '' && smithy build'')]"
  using assms unfolding build_def Let_def io_Inr
  by (auto simp: emit_def)

lemma after_source_Inr:
  assumes "after_source env sdk_id result0 index total' w = (Inr result, w')"
  defines "rc \<equiv> fst (smithy_build env (output_path sdk_id))"
  defines "log \<equiv> snd (smithy_build env (output_path sdk_id))"
  shows "result = result0 @ [(''build'', if rc = 0 then ''success'' else ''failed'')]"
    and "dirs w' = Set.filter (\<lambda>q. \<not> beneath (build_path sdk_id) q) (dirs w)"
    and "build_path sdk_id \<in> dirs w"
    and "files w' = (\<lambda>q. if beneath (build_path sdk_id) q then None
                        else (if rc = 0 then (files w)(build_log_path sdk_id \<mapsto> log)
                              else (files w)(build_log_path sdk_id \<mapsto> log,
                                             errors_path sdk_id \<mapsto> ag env log)) q)"
    and "trace w' = trace w @
           [Printed (Building index total' sdk_id), Wrote (build_log_path sdk_id),
            Ran (''cd '' @ output_path sdk_id @ '' && smithy build'')] @
           (if rc = 0 then []
            else [Ran (ag_command (build_log_path sdk_id)), Wrote (errors_path sdk_id)]) @
           [Removed (build_path sdk_id), Printed (ResultLine result)]"
proof -
  from assms(1) obtain b w1 where
    b: "build env sdk_id index total' (output_path sdk_id) w = (Inr b, w1)"
    unfolding after_source_def and_then_Inr by blast
  obtain rc' build_log where bb: "b = (rc', build_log)" by (cases b)
  note B = build_Inr[OF b[unfolded bb]]
  have rc': "rc' = rc" and bl: "build_log = build_log_path sdk_id"
    using B by (simp_all add: rc_def build_log_path_def)
  let ?result = "result0 @ [(''build'', if rc = 0 then ''success'' else ''failed'')]"
  from assms(1) b bb have rest:
    "and_then
          (if rc \<noteq> 0
           then and_then (exec env (ag_command build_log) build_log) (\<lambda>output.
                write_file env (output_path sdk_id @ ''/errors.txt'') output)
           else ret ()) (\<lambda>_.
        and_then (rmtree env (output_path sdk_id @ ''/build'')) (\<lambda>_.
        and_then (print (ResultLine ?result)) (\<lambda>_.
        ret ?result))) w1 = (Inr result, w')"
    unfolding after_source_def by (simp add: and_then_def Let_def rc')
  have bp: "output_path sdk_id @ ''/build'' = build_path sdk_id"
    by (simp add: build_path_def BUILD_DIRNAME_def)
  have ep: "output_path sdk_id @ ''/errors.txt'' = errors_path sdk_id"
    by (simp add: errors_path_def)
  show "result = ?result"
    using rest by (auto simp: io_Inr split: if_splits)
  show "build_path sdk_id \<in> dirs w"
    using rest B unfolding bp ep by (auto simp: io_Inr emit_def split: if_splits)
  show "dirs w' = Set.filter (\<lambda>q. \<not> beneath (build_path sdk_id) q) (dirs w)"
    using rest B unfolding bp ep by (auto simp: io_Inr emit_def split: if_splits)
  show "files w' = (\<lambda>q. if beneath (build_path sdk_id) q then None
                        else (if rc = 0 then (files w)(build_log_path sdk_id \<mapsto> log)
                              else (files w)(build_log_path sdk_id \<mapsto> log,
                                             errors_path sdk_id \<mapsto> ag env log)) q)"
    using rest B unfolding bp ep
    by (auto simp: io_Inr emit_def bl log_def split: if_splits)
  show "trace w' = trace w @
           [Printed (Building index total' sdk_id), Wrote (build_log_path sdk_id),
            Ran (''cd '' @ output_path sdk_id @ '' && smithy build'')] @
           (if rc = 0 then []
            else [Ran (ag_command (build_log_path sdk_id)), Wrote (errors_path sdk_id)]) @
           [Removed (build_path sdk_id), Printed (ResultLine result)]"
    using rest B unfolding bp ep
    by (auto simp: io_Inr emit_def bl split: if_splits)
qed

subsection \<open>The two ways out of \<open>generate\<close>\<close>

lemma generate_no_source:
  assumes "glob env (glob_pattern sdk_id) = []"
  shows "generate env sdk_id index total' w = (Inr NoSource, emit (Printed (NoJsonFiles sdk_id)) w)"
  using assms by (simp add: generate_def glob_pattern_def Let_def and_then_def print_def ret_def)

lemma generate_source:
  assumes "glob env (glob_pattern sdk_id) = source_path # others"
  shows "generate env sdk_id index total' =
           and_then (with_source env sdk_id source_path) (\<lambda>key.
           and_then (after_source env sdk_id (result_head sdk_id index total' source_path key)
                       index total') (\<lambda>result.
           ret (Built result)))"
  using assms by (simp add: generate_def glob_pattern_def Let_def result_head_def)

lemma generate_Built:
  assumes "generate env sdk_id index total' w = (Inr (Built result), w')"
  obtains source_path others key w1 where
    "glob env (glob_pattern sdk_id) = source_path # others"
    "with_source env sdk_id source_path w = (Inr key, w1)"
    "after_source env sdk_id (result_head sdk_id index total' source_path key) index total' w1
       = (Inr result, w')"
proof (cases "glob env (glob_pattern sdk_id)")
  case Nil
  then show ?thesis using assms generate_no_source[OF Nil, of index total' w] by simp
next
  case (Cons source_path others)
  from assms show ?thesis
    unfolding generate_source[OF Cons] and_then_Inr ret_Inr
    using Cons that by blast
qed

subsection \<open>What a unit prints\<close>

lemma reports_append: "reports (a @ b) = reports a @ reports b"
  by (induction a) (simp_all split: option.splits)

lemma quiet_and_then:
  assumes "quiet m" "\<And>a. quiet (f a)"
  shows "quiet (and_then m f)"
  unfolding quiet_def
proof
  fix w
  obtain r w1 where m: "m w = (r, w1)" by (cases "m w")
  from assms(1) m obtain evs1 where e1: "trace w1 = trace w @ evs1" "reports evs1 = []"
    unfolding quiet_def by (metis snd_conv)
  show "\<exists>evs. trace (snd (and_then m f w)) = trace w @ evs \<and> reports evs = []"
  proof (cases r)
    case (Inl e)
    then show ?thesis using m e1 by (simp add: and_then_def)
  next
    case (Inr a)
    from assms(2)[of a] obtain evs2 where
      e2: "trace (snd (f a w1)) = trace w1 @ evs2" "reports evs2 = []"
      unfolding quiet_def by blast
    have "trace (snd (and_then m f w)) = trace w @ (evs1 @ evs2)"
      using m Inr e1 e2 by (simp add: and_then_def)
    moreover have "reports (evs1 @ evs2) = []"
      using e1 e2 by (simp add: reports_append)
    ultimately show ?thesis by blast
  qed
qed

lemma quiet_unless_done_and_then:
  assumes "quiet m" "\<And>a. quiet_unless_done (f a)"
  shows "quiet_unless_done (and_then m f)"
  unfolding quiet_unless_done_def
proof
  fix w
  obtain r w1 where m: "m w = (r, w1)" by (cases "m w")
  from assms(1) m obtain evs1 where e1: "trace w1 = trace w @ evs1" "reports evs1 = []"
    unfolding quiet_def by (metis snd_conv)
  show "\<exists>evs. trace (snd (and_then m f w)) = trace w @ evs \<and>
          (isl (fst (and_then m f w)) \<longrightarrow> reports evs = [])"
  proof (cases r)
    case (Inl e)
    then show ?thesis using m e1 by (simp add: and_then_def)
  next
    case (Inr a)
    from assms(2)[of a] obtain evs2 where
      e2: "trace (snd (f a w1)) = trace w1 @ evs2" "isl (fst (f a w1)) \<longrightarrow> reports evs2 = []"
      unfolding quiet_unless_done_def by blast
    have "trace (snd (and_then m f w)) = trace w @ (evs1 @ evs2)"
      using m Inr e1 e2 by (simp add: and_then_def)
    moreover have "isl (fst (and_then m f w)) \<longrightarrow> reports (evs1 @ evs2) = []"
      using m Inr e1 e2 by (simp add: and_then_def reports_append)
    ultimately show ?thesis by blast
  qed
qed

lemma quiet_ret: "quiet (ret a)"
  by (simp add: quiet_def ret_def)

lemma quiet_silent:
  assumes "\<And>w. trace (snd (m w)) = trace w \<or>
              (\<exists>ev. trace (snd (m w)) = trace w @ [ev] \<and> terminal ev = None)"
  shows "quiet m"
  unfolding quiet_def
proof
  fix w
  from assms[of w] show "\<exists>evs. trace (snd (m w)) = trace w @ evs \<and> reports evs = []"
  proof
    assume "trace (snd (m w)) = trace w"
    then have "trace (snd (m w)) = trace w @ [] \<and> reports [] = []" by simp
    then show ?thesis by blast
  next
    assume "\<exists>ev. trace (snd (m w)) = trace w @ [ev] \<and> terminal ev = None"
    then obtain ev where "trace (snd (m w)) = trace w @ [ev]" "terminal ev = None" by blast
    then have "trace (snd (m w)) = trace w @ [ev] \<and> reports [ev] = []"
      by simp
    then show ?thesis by blast
  qed
qed

lemma quiet_prims:
  "quiet (open_read env p)" "quiet (json_load env text)" "quiet (jq_first data)"
  "quiet (makedirs env p)" "quiet (copy env src dst)" "quiet (write_file env p text)"
  "quiet (rmtree env p)" "quiet (popen_wait env command path log)" "quiet (exec env command log)"
  "quiet (print (Building i n sdk))"
  by (rule quiet_silent;
      simp add: open_read_def json_load_def jq_first_def makedirs_def copy_def write_file_def
        rmtree_def popen_wait_def exec_def print_def emit_def raise_def ret_def Let_def
        split: option.splits list.splits)+

lemma quiet_with_source: "quiet (with_source env sdk_id source_path)"
  unfolding with_source_def
  by (intro quiet_and_then quiet_prims quiet_ret)

lemma quiet_build: "quiet (build env sdk_id index total' path)"
  unfolding build_def Let_def
  by (intro quiet_and_then quiet_prims quiet_ret)

lemma quiet_unless_done_print: "quiet_unless_done (and_then (print l) (\<lambda>_. ret a))"
  by (simp add: quiet_unless_done_def and_then_def print_def ret_def emit_def)

lemma quiet_unless_done_after_source:
  "quiet_unless_done (after_source env sdk_id result0 index total')"
  unfolding after_source_def Let_def
  apply (rule quiet_unless_done_and_then[OF quiet_build])
  apply (simp only: split_paired_all prod.case)
  apply (rule quiet_unless_done_and_then)
   apply (simp add: quiet_and_then quiet_prims quiet_ret)
  apply (rule quiet_unless_done_and_then[OF quiet_prims(7)])
  apply (rule quiet_unless_done_print)
  done

lemma terminal_result:
  "terminal (Printed (ResultLine (result_head sdk_id index total' source_path key @ [(''build'', b)])))
     = Some (sdk_id, if b = ''success'' then Succeeded else Failed)"
  by (simp add: result_head_def)

text \<open>
  Whatever happens in a unit, it only appends to the trace: nothing terminal when it
  raises, the line of a skipped unit when there is no description, the result otherwise.
\<close>

lemma generate_reports:
  "\<exists>evs. trace (snd (generate env sdk_id index total' w)) = trace w @ evs \<and>
         (case fst (generate env sdk_id index total' w) of
            Inl e \<Rightarrow> reports evs = []
          | Inr NoSource \<Rightarrow> reports evs = [(sdk_id, Skipped)]
          | Inr (Built result) \<Rightarrow>
              reports evs = [(sdk_id, if map_of result ''build'' = Some ''success''
                                      then Succeeded else Failed)])"
proof (cases "glob env (glob_pattern sdk_id)")
  case Nil
  have "trace (snd (generate env sdk_id index total' w)) = trace w @ [Printed (NoJsonFiles sdk_id)]"
    by (simp add: generate_no_source[OF Nil] emit_def)
  then show ?thesis by (simp add: generate_no_source[OF Nil])
next
  case (Cons source_path others)
  note g = generate_source[OF Cons, of index total']
  obtain r1 w1 where ws: "with_source env sdk_id source_path w = (r1, w1)"
    by (cases "with_source env sdk_id source_path w")
  from quiet_with_source[of env sdk_id source_path] ws
  obtain evs1 where e1: "trace w1 = trace w @ evs1" "reports evs1 = []"
    unfolding quiet_def by (metis snd_conv)
  show ?thesis
  proof (cases r1)
    case (Inl e)
    then show ?thesis using ws e1 by (simp add: g and_then_def)
  next
    case (Inr key)
    let ?head = "result_head sdk_id index total' source_path key"
    obtain r2 w2 where as: "after_source env sdk_id ?head index total' w1 = (r2, w2)"
      by (cases "after_source env sdk_id ?head index total' w1")
    show ?thesis
    proof (cases r2)
      case (Inl e)
      from quiet_unless_done_after_source[of env sdk_id ?head index total'] as Inl
      obtain evs2 where "trace w2 = trace w1 @ evs2" "reports evs2 = []"
        unfolding quiet_unless_done_def by (metis fst_conv snd_conv sum.disc(1))
      then have "trace w2 = trace w @ (evs1 @ evs2)" "reports (evs1 @ evs2) = []"
        using e1 by (simp_all add: reports_append)
      then show ?thesis using ws as Inl \<open>r1 = Inr key\<close>
        by (simp add: g and_then_def)
    next
      case (Inr result)
      note A = after_source_Inr[OF as[unfolded Inr]]
      let ?b = "if fst (smithy_build env (output_path sdk_id)) = 0 then ''success'' else ''failed''"
      let ?evs = "[Printed (Building index total' sdk_id), Wrote (build_log_path sdk_id),
            Ran (''cd '' @ output_path sdk_id @ '' && smithy build'')] @
           (if fst (smithy_build env (output_path sdk_id)) = 0 then []
            else [Ran (ag_command (build_log_path sdk_id)), Wrote (errors_path sdk_id)]) @
           [Removed (build_path sdk_id), Printed (ResultLine result)]"
      have res: "result = ?head @ [(''build'', ?b)]" using A(1) by simp
      have mb: "map_of result ''build'' = Some ?b"
        unfolding res by (simp add: result_head_def)
      have t: "terminal (Printed (ResultLine result)) =
                 Some (sdk_id, if ?b = ''success'' then Succeeded else Failed)"
        unfolding res by (rule terminal_result)
      have e2: "trace w2 = trace w1 @ ?evs"
        using A(5) by simp
      have r2: "reports ?evs = [(sdk_id, if ?b = ''success'' then Succeeded else Failed)]"
        by (simp add: t del: terminal.simps(2))
      have "trace w2 = trace w @ (evs1 @ ?evs)"
        and "reports (evs1 @ ?evs) = [(sdk_id, if ?b = ''success'' then Succeeded else Failed)]"
        using e1 e2 r2 by (simp_all only: reports_append append_assoc append_Nil)
      then show ?thesis using ws as Inr \<open>r1 = Inr key\<close> mb
        by (simp add: g and_then_def ret_def)
    qed
  qed
qed

section \<open>The names derived from the service key\<close>

lemma length_split: "length (split sep s) = Suc (length (filter (\<lambda>c. c = sep) s))"
  by (induction s) (auto split: list.splits)

lemma split_nonempty: "split sep s \<noteq> []"
  using length_split[of sep s] by auto

lemma split_no_sep: "sep \<notin> set s \<Longrightarrow> split sep s = [s]"
  by (induction s) (auto split: list.splits)

lemma hd_split: "hd (split sep s) = takeWhile (\<lambda>c. c \<noteq> sep) s"
  by (induction s) (auto split: list.splits simp: split_nonempty)

lemma last_split_append: "last (split sep (xs @ sep # ys)) = last (split sep ys)"
proof (induction xs)
  case Nil
  then show ?case by (simp add: split_nonempty)
next
  case (Cons x xs)
  obtain seg segs where sp: "split sep (xs @ sep # ys) = seg # segs"
    using split_nonempty[of sep "xs @ sep # ys"] by (cases "split sep (xs @ sep # ys)") auto
  have "length (split sep (xs @ sep # ys)) \<ge> 2"
    by (simp add: length_split)
  then have "segs \<noteq> []" using sp by auto
  then show ?case using Cons.IH sp by simp
qed

lemma last_split: "last (split sep s) = rev (takeWhile (\<lambda>c. c \<noteq> sep) (rev s))"
proof (cases "sep \<in> set s")
  case False
  then have tw: "takeWhile (\<lambda>c. c \<noteq> sep) (rev s) = rev s"
    by (auto intro: takeWhile_eq_all_conv[THEN iffD2])
  show ?thesis unfolding split_no_sep[OF False] tw by simp
next
  case True
  then obtain xs ys where s: "s = xs @ sep # ys" and ys: "sep \<notin> set ys"
    by (meson split_list_last)
  have a: "takeWhile (\<lambda>c. c \<noteq> sep) (rev ys) = rev ys"
    using ys by (auto intro: takeWhile_eq_all_conv[THEN iffD2])
  have "takeWhile (\<lambda>c. c \<noteq> sep) (rev s) = takeWhile (\<lambda>c. c \<noteq> sep) (rev ys @ sep # rev xs)"
    by (simp add: s)
  also have "\<dots> = takeWhile (\<lambda>c. c \<noteq> sep) (rev ys)"
    by (rule takeWhile_tail) simp
  finally have "rev (takeWhile (\<lambda>c. c \<noteq> sep) (rev s)) = ys"
    unfolding a by simp
  moreover have "last (split sep s) = ys"
    unfolding s last_split_append split_no_sep[OF ys] by simp
  ultimately show ?thesis by simp
qed

text \<open>
  Claim C3, as amended. For every service key, the model name (the parameter \<open>name\<close>
  of the plugin) is the last dot-delimited segment of the portion of the key before
  \<open>#\<close>; the module name is the Name Deriver's output on that segment, and the namespace
  is \<open>aws.\<close> followed by the module name. The configuration holds the segment under
  \<open>plugins.unison-codegen.name\<close> and the namespace under
  \<open>plugins.unison-codegen.namespace\<close>. For the key \<open>com.amazonaws.s3#AmazonS3\<close> the
  model name and the module name are \<open>s3\<close> and the namespace is \<open>aws.s3\<close>.
\<close>

theorem derived_names:
  "model_name key = last_segment (before_separator key) \<and>
   module_name' key = snake_case (last_segment (before_separator key)) \<and>
   namespace key = ''aws.'' @ snake_case (last_segment (before_separator key)) \<and>
   member_path [''plugins'', ''unison-codegen'', ''name''] (build_json key)
     = Some (JString (last_segment (before_separator key))) \<and>
   member_path [''plugins'', ''unison-codegen'', ''namespace''] (build_json key)
     = Some (JString (''aws.'' @ snake_case (last_segment (before_separator key)))) \<and>
   model_name ''com.amazonaws.s3#AmazonS3'' = ''s3'' \<and>
   module_name' ''com.amazonaws.s3#AmazonS3'' = ''s3'' \<and>
   namespace ''com.amazonaws.s3#AmazonS3'' = ''aws.s3'' \<and>
   member_path [''plugins'', ''unison-codegen'', ''namespace'']
     (build_json ''com.amazonaws.s3#AmazonS3'') = Some (JString ''aws.s3'')"
proof -
  have m: "model_name key = last_segment (before_separator key)" for key
    by (simp add: model_name_def last_segment_def before_separator_def hd_split last_split)
  have e1: "model_name ''com.amazonaws.s3#AmazonS3'' = ''s3''" by code_simp
  have e2: "module_name' ''com.amazonaws.s3#AmazonS3'' = ''s3''" by code_simp
  have e3: "namespace ''com.amazonaws.s3#AmazonS3'' = ''aws.s3''" by code_simp
  have p1: "member_path [''plugins'', ''unison-codegen'', ''name''] (build_json k)
              = Some (JString (model_name k))" for k
    by (simp add: build_json_def)
  have p2: "member_path [''plugins'', ''unison-codegen'', ''namespace''] (build_json k)
              = Some (JString (namespace k))" for k
    by (simp add: build_json_def)
  have n: "namespace key = ''aws.'' @ snake_case (last_segment (before_separator key))"
    by (simp add: namespace_def module_name'_def m)
  show ?thesis
    unfolding p1 p2 e1 e2 e3 n
    by (simp add: module_name'_def m)
qed

text \<open>
  The claim as stated fails: the module name is not the segment itself when the segment
  has an uppercase letter.
\<close>

theorem module_name_is_not_the_segment:
  "module_name' ''com.amazonaws.DynamoDB#DynamoDB_20120810'' = ''dynamo_db'' \<and>
   last_segment (before_separator ''com.amazonaws.DynamoDB#DynamoDB_20120810'') = ''DynamoDB'' \<and>
   module_name' ''com.amazonaws.DynamoDB#DynamoDB_20120810''
     \<noteq> last_segment (before_separator ''com.amazonaws.DynamoDB#DynamoDB_20120810'')"
  by code_simp

section \<open>The claims about one unit\<close>

lemma not_beneath_build:
  "\<not> beneath (build_path sdk_id) (model_path sdk_id)"
  "\<not> beneath (build_path sdk_id) (build_json_path sdk_id)"
  "\<not> beneath (build_path sdk_id) (errors_path sdk_id)"
  "\<not> beneath (build_path sdk_id) (build_log_path sdk_id)"
  by (simp_all add: beneath_def build_path_def model_path_def build_json_path_def errors_path_def
        build_log_path_def BUILD_DIRNAME_def MODEL_DIRNAME_def)

lemma workspace_paths_differ:
  "build_json_path sdk_id \<noteq> build_log_path sdk_id"
  "build_json_path sdk_id \<noteq> errors_path sdk_id"
  "errors_path sdk_id \<noteq> build_log_path sdk_id"
  by (simp_all add: build_json_path_def errors_path_def build_log_path_def)

lemma generate_Built_world:
  assumes "generate env sdk_id index total' w = (Inr (Built result), w')"
  defines "src \<equiv> source_of env sdk_id"
  defines "key \<equiv> service_key env w sdk_id"
  defines "w1_files \<equiv> (files w)(path_join (model_path sdk_id) (basename src) \<mapsto> the (files w src),
                                 build_json_path sdk_id \<mapsto> dumps (build_json key))"
  shows "glob env (glob_pattern sdk_id) \<noteq> []"
    and "files w src \<noteq> None"
    and "result = result_head sdk_id index total' src key @
                [(''build'', if build_status env sdk_id = 0 then ''success'' else ''failed'')]"
    and "dirs w' = Set.filter (\<lambda>q. \<not> beneath (build_path sdk_id) q)
                    (dirs w \<union> set (ancestors (output_path sdk_id))
                      \<union> set (ancestors (model_path sdk_id)) \<union> set (ancestors (build_path sdk_id)))"
    and "files w' = (\<lambda>q. if beneath (build_path sdk_id) q then None
                     else (if build_status env sdk_id = 0
                           then w1_files(build_log_path sdk_id \<mapsto> build_output env sdk_id)
                           else w1_files(build_log_path sdk_id \<mapsto> build_output env sdk_id,
                                         errors_path sdk_id \<mapsto> ag env (build_output env sdk_id))) q)"
    and "trace w' = trace w @
             [MadeDirs (output_path sdk_id), MadeDirs (model_path sdk_id), MadeDirs (build_path sdk_id),
              Copied src (path_join (model_path sdk_id) (basename src)),
              Wrote (build_json_path sdk_id),
              Printed (Building index total' sdk_id), Wrote (build_log_path sdk_id),
              Ran (''cd '' @ output_path sdk_id @ '' && smithy build'')] @
             (if build_status env sdk_id = 0 then []
              else [Ran (ag_command (build_log_path sdk_id)), Wrote (errors_path sdk_id)]) @
             [Removed (build_path sdk_id), Printed (ResultLine result)]"
proof -
  from assms(1) obtain source_path others k w1 where
    g: "glob env (glob_pattern sdk_id) = source_path # others"
    and ws: "with_source env sdk_id source_path w = (Inr k, w1)"
    and as: "after_source env sdk_id (result_head sdk_id index total' source_path k) index total' w1
       = (Inr result, w')"
    by (rule generate_Built)
  from with_source_Inr[OF ws] obtain content data entry rest where
    W: "files w source_path = Some content" "json_loads env content = Some data"
       "filter (\<lambda>entry. snd entry = ''service'') data = entry # rest" "k = fst entry"
       "dirs w1 = dirs w \<union> set (ancestors (output_path sdk_id))
                      \<union> set (ancestors (model_path sdk_id)) \<union> set (ancestors (build_path sdk_id))"
       "files w1 = (files w)(path_join (model_path sdk_id) (basename source_path) \<mapsto> content,
                                build_json_path sdk_id \<mapsto> dumps (build_json k))"
       "trace w1 = trace w @
             [MadeDirs (output_path sdk_id), MadeDirs (model_path sdk_id), MadeDirs (build_path sdk_id),
              Copied source_path (path_join (model_path sdk_id) (basename source_path)),
              Wrote (build_json_path sdk_id)]"
    by blast
  note A = after_source_Inr[OF as]
  have s: "source_path = src" using g by (simp add: src_def source_of_def)
  have k: "k = key" using W(1,2,3,4) s by (simp add: key_def service_key_def src_def)
  have c: "content = the (files w src)" using W(1) s by simp
  have f1: "files w1 = w1_files" using W(6) by (simp add: w1_files_def s k c)
  show "glob env (glob_pattern sdk_id) \<noteq> []" using g by simp
  show "files w src \<noteq> None" using W(1) s by simp
  show "result = result_head sdk_id index total' src key @
                [(''build'', if build_status env sdk_id = 0 then ''success'' else ''failed'')]"
    using A(1) by (simp add: s k build_status_def)
  show "dirs w' = Set.filter (\<lambda>q. \<not> beneath (build_path sdk_id) q)
                    (dirs w \<union> set (ancestors (output_path sdk_id))
                      \<union> set (ancestors (model_path sdk_id)) \<union> set (ancestors (build_path sdk_id)))"
    using A(2) W(5) by simp
  show "files w' = (\<lambda>q. if beneath (build_path sdk_id) q then None
                     else (if build_status env sdk_id = 0
                           then w1_files(build_log_path sdk_id \<mapsto> build_output env sdk_id)
                           else w1_files(build_log_path sdk_id \<mapsto> build_output env sdk_id,
                                         errors_path sdk_id \<mapsto> ag env (build_output env sdk_id))) q)"
    unfolding A(4) f1 build_status_def build_output_def by simp
  show "trace w' = trace w @
             [MadeDirs (output_path sdk_id), MadeDirs (model_path sdk_id), MadeDirs (build_path sdk_id),
              Copied src (path_join (model_path sdk_id) (basename src)),
              Wrote (build_json_path sdk_id),
              Printed (Building index total' sdk_id), Wrote (build_log_path sdk_id),
              Ran (''cd '' @ output_path sdk_id @ '' && smithy build'')] @
             (if build_status env sdk_id = 0 then []
              else [Ran (ag_command (build_log_path sdk_id)), Wrote (errors_path sdk_id)]) @
             [Removed (build_path sdk_id), Printed (ResultLine result)]"
    using A(5) W(7) by (simp add: s build_status_def)
qed

lemma fst_generate_Built:
  assumes "fst (generate env sdk_id index total' w) = Inr (Built result)"
  shows "generate env sdk_id index total' w = (Inr (Built result), snd (generate env sdk_id index total' w))"
  using assms by (metis prod.collapse)

lemma new_events_append: "trace w' = trace w @ evs \<Longrightarrow> new_events w w' = evs"
  by (simp add: new_events_def)

lemma result_build:
  "map_of (result_head sdk_id index total' src key @ [(''build'', b)]) ''build'' = Some b"
  by (simp add: result_head_def)

text \<open>
  Claim C1, as amended. For every unit whose pipeline runs to a recorded build outcome
  (success or build failure), after the pipeline has returned the unit's \<open>build/\<close>
  directory does not exist, while its \<open>model/\<close> directory and its configuration file
  do.
\<close>

theorem build_dir_removed_when_built:
  assumes "fst (generate env sdk_id index total' w) = Inr (Built result)"
  shows "build_path sdk_id \<notin> dirs (snd (generate env sdk_id index total' w)) \<and>
         model_path sdk_id \<in> dirs (snd (generate env sdk_id index total' w)) \<and>
         files (snd (generate env sdk_id index total' w)) (build_json_path sdk_id) \<noteq> None"
proof -
  let ?w' = "snd (generate env sdk_id index total' w)"
  note G = generate_Built_world[OF fst_generate_Built[OF assms]]
  have "build_path sdk_id \<notin> dirs ?w'"
    unfolding G(4) by (simp add: beneath_def)
  moreover have "model_path sdk_id \<in> dirs ?w'"
    unfolding G(4) by (simp add: not_beneath_build self_in_ancestors)
  moreover have "files ?w' (build_json_path sdk_id) \<noteq> None"
    unfolding G(5) by (simp add: not_beneath_build workspace_paths_differ)
  ultimately show ?thesis by blast
qed

text \<open>The concrete run with a build that succeeds: the unit \<open>s3\<close> is built, and its \<open>build/\<close> is gone.\<close>

theorem build_dir_removed_when_built_witness:
  "fst (generate (example_env nothing_fails 0) ''s3'' 1 3 (example_world s3_text))
     = Inr (Built (s3_result ''success'')) \<and>
   build_path ''s3''
     \<notin> dirs (snd (generate (example_env nothing_fails 0) ''s3'' 1 3 (example_world s3_text))) \<and>
   model_path ''s3''
     \<in> dirs (snd (generate (example_env nothing_fails 0) ''s3'' 1 3 (example_world s3_text))) \<and>
   files (snd (generate (example_env nothing_fails 0) ''s3'' 1 3 (example_world s3_text)))
     (build_json_path ''s3'') \<noteq> None"
proof -
  have h: "fst (generate (example_env nothing_fails 0) ''s3'' 1 3 (example_world s3_text))
             = Inr (Built (s3_result ''success''))"
    by code_simp
  show ?thesis
    by (rule conjI[OF h build_dir_removed_when_built[OF h]])
qed

text \<open>
  The claim as stated fails on the way out by an exception: when the copy of the
  description fails, the pipeline of \<open>s3\<close> ends with that \<open>OSError\<close> and \<open>build/\<close>,
  made just before, is still there.
\<close>

theorem build_dir_left_behind_on_exception:
  "glob (example_env copy_fails 0) (glob_pattern ''s3'') = [s3_source] \<and>
   fst (generate (example_env copy_fails 0) ''s3'' 1 3 (example_world s3_text))
     = Inl (OSError (CopyFile s3_source ''output/s3/model'')) \<and>
   build_path ''s3''
     \<in> dirs (snd (generate (example_env copy_fails 0) ''s3'' 1 3 (example_world s3_text)))"
  by code_simp

text \<open>
  Claim C4, as amended. For every unit whose pipeline runs to its end (no stage raises),
  the build outcome is recorded as \<open>success\<close> exactly when the exit status of the build
  is zero and as \<open>failed\<close> for any other status; the search of the log runs and
  \<open>errors.txt\<close> is written exactly when the status is not zero, and \<open>errors.txt\<close>
  then holds what the search printed, which may be nothing.
\<close>

theorem build_outcome_and_extractor:
  assumes "fst (generate env sdk_id index total' w) = Inr (Built result)"
  shows "(map_of result ''build'' = Some ''success'' \<longleftrightarrow> build_status env sdk_id = 0) \<and>
         (map_of result ''build'' = Some ''failed'' \<longleftrightarrow> build_status env sdk_id \<noteq> 0) \<and>
         (Ran (ag_command (build_log_path sdk_id))
            \<in> set (new_events w (snd (generate env sdk_id index total' w)))
          \<longleftrightarrow> build_status env sdk_id \<noteq> 0) \<and>
         (Wrote (errors_path sdk_id)
            \<in> set (new_events w (snd (generate env sdk_id index total' w)))
          \<longleftrightarrow> build_status env sdk_id \<noteq> 0) \<and>
         (build_status env sdk_id = 0 \<or>
          files (snd (generate env sdk_id index total' w)) (errors_path sdk_id)
            = Some (ag env (build_output env sdk_id)))"
proof -
  let ?w' = "snd (generate env sdk_id index total' w)"
  note G = generate_Built_world[OF fst_generate_Built[OF assms]]
  have b: "map_of result ''build'' =
             Some (if build_status env sdk_id = 0 then ''success'' else ''failed'')"
    unfolding G(3) by (rule result_build)
  have ev: "new_events w ?w' =
             [MadeDirs (output_path sdk_id), MadeDirs (model_path sdk_id), MadeDirs (build_path sdk_id),
              Copied (source_of env sdk_id)
                (path_join (model_path sdk_id) (basename (source_of env sdk_id))),
              Wrote (build_json_path sdk_id),
              Printed (Building index total' sdk_id), Wrote (build_log_path sdk_id),
              Ran (''cd '' @ output_path sdk_id @ '' && smithy build'')] @
             (if build_status env sdk_id = 0 then []
              else [Ran (ag_command (build_log_path sdk_id)), Wrote (errors_path sdk_id)]) @
             [Removed (build_path sdk_id), Printed (ResultLine result)]"
    by (rule new_events_append[OF G(6)])
  have 1: "map_of result ''build'' = Some ''success'' \<longleftrightarrow> build_status env sdk_id = 0"
    unfolding b by simp
  have 2: "map_of result ''build'' = Some ''failed'' \<longleftrightarrow> build_status env sdk_id \<noteq> 0"
    unfolding b by simp
  have 3: "Ran (ag_command (build_log_path sdk_id)) \<in> set (new_events w ?w')
            \<longleftrightarrow> build_status env sdk_id \<noteq> 0"
    unfolding ev by (simp add: ag_command_def)
  have 4: "Wrote (errors_path sdk_id) \<in> set (new_events w ?w')
            \<longleftrightarrow> build_status env sdk_id \<noteq> 0"
    unfolding ev using workspace_paths_differ[of sdk_id] by auto
  have 5: "build_status env sdk_id = 0 \<or>
           files ?w' (errors_path sdk_id) = Some (ag env (build_output env sdk_id))"
    unfolding G(5) by (simp add: not_beneath_build)
  from 1 2 3 4 5 show ?thesis by blast
qed

text \<open>The concrete run with a build that exits with status 2: the outcome is \<open>failed\<close>, and \<open>errors.txt\<close> is written although the search printed nothing.\<close>

theorem build_outcome_and_extractor_witness:
  "fst (generate (example_env nothing_fails 2) ''s3'' 1 3 (example_world s3_text))
     = Inr (Built (s3_result ''failed'')) \<and>
   build_status (example_env nothing_fails 2) ''s3'' \<noteq> 0 \<and>
   map_of (s3_result ''failed'') ''build'' = Some ''failed'' \<and>
   Wrote (errors_path ''s3'')
     \<in> set (new_events (example_world s3_text)
              (snd (generate (example_env nothing_fails 2) ''s3'' 1 3 (example_world s3_text)))) \<and>
   files (snd (generate (example_env nothing_fails 2) ''s3'' 1 3 (example_world s3_text)))
     (errors_path ''s3'') = Some []"
proof -
  have h: "fst (generate (example_env nothing_fails 2) ''s3'' 1 3 (example_world s3_text))
             = Inr (Built (s3_result ''failed''))"
    by code_simp
  have st: "build_status (example_env nothing_fails 2) ''s3'' \<noteq> 0"
    by (simp add: build_status_def example_env_def)
  have ag: "ag (example_env nothing_fails 2) (build_output (example_env nothing_fails 2) ''s3'') = []"
    by (simp add: example_env_def)
  show ?thesis
    using h st ag build_outcome_and_extractor[OF h] by simp
qed

text \<open>
  The claim as stated fails for a unit whose build fails and whose \<open>errors.txt\<close> cannot
  be opened: the build of \<open>s3\<close> exits with status 2 and the search runs, but the
  pipeline ends with the \<open>OSError\<close> of \<open>open\<close>, and no \<open>errors.txt\<close> is written.
\<close>

theorem errors_file_missing_after_failed_build:
  "build_status (example_env errors_write_fails 2) ''s3'' = 2 \<and>
   fst (generate (example_env errors_write_fails 2) ''s3'' 1 3 (example_world s3_text))
     = Inl (OSError (OpenWrite ''output/s3/errors.txt'')) \<and>
   Ran (ag_command (build_log_path ''s3''))
     \<in> set (new_events (example_world s3_text)
              (snd (generate (example_env errors_write_fails 2) ''s3'' 1 3
                      (example_world s3_text)))) \<and>
   Wrote (errors_path ''s3'')
     \<notin> set (new_events (example_world s3_text)
              (snd (generate (example_env errors_write_fails 2) ''s3'' 1 3
                      (example_world s3_text)))) \<and>
   files (snd (generate (example_env errors_write_fails 2) ''s3'' 1 3 (example_world s3_text)))
     (errors_path ''s3'') = None"
  by code_simp

text \<open>
  Claim C5. For every unit with no description file, the pipeline returns without an
  error after printing the line of a skipped unit, which is all it does: no directory is
  made and no file written. The scheduler goes on with the remaining units.
\<close>

theorem no_source_is_skipped:
  assumes "glob env (glob_pattern sdk_id) = []"
  shows "generate env sdk_id index total' w
           = (Inr NoSource, w\<lparr>trace := trace w @ [Printed (NoJsonFiles sdk_id)]\<rparr>) \<and>
         reports (new_events w (snd (generate env sdk_id index total' w))) = [(sdk_id, Skipped)] \<and>
         collect env total' ((sdk_id, index) # futures) w
           = collect env total' futures (w\<lparr>trace := trace w @ [Printed (NoJsonFiles sdk_id)]\<rparr>)"
  using generate_no_source[OF assms, of index total' w]
  by (simp add: emit_def new_events_def)

text \<open>In the concrete run the unit \<open>ec2\<close> has no description.\<close>

theorem no_source_is_skipped_witness:
  "glob (example_env nothing_fails 0) (glob_pattern ''ec2'') = [] \<and>
   (generate (example_env nothing_fails 0) ''ec2'' 3 3 (example_world s3_text)
      = (Inr NoSource,
         (example_world s3_text)
           \<lparr>trace := trace (example_world s3_text) @ [Printed (NoJsonFiles ''ec2'')]\<rparr>) \<and>
    reports (new_events (example_world s3_text)
       (snd (generate (example_env nothing_fails 0) ''ec2'' 3 3 (example_world s3_text))))
      = [(''ec2'', Skipped)] \<and>
    collect (example_env nothing_fails 0) 3 [(''ec2'', 3)] (example_world s3_text)
      = collect (example_env nothing_fails 0) 3 []
          ((example_world s3_text)
             \<lparr>trace := trace (example_world s3_text) @ [Printed (NoJsonFiles ''ec2'')]\<rparr>))"
proof -
  have h: "glob (example_env nothing_fails 0) (glob_pattern ''ec2'') = []"
    by code_simp
  show ?thesis
    by (rule conjI[OF h no_source_is_skipped[OF h]])
qed

text \<open>
  Claim C9. Running the pipeline twice for the same unit with an unchanged description
  writes the same configuration both times: the text is the serialised configuration of
  the service key, and nothing else enters it.
\<close>

theorem configuration_is_reproducible:
  assumes "fst (generate env sdk_id i n w) = Inr (Built r1)"
    and "fst (generate env sdk_id j m (snd (generate env sdk_id i n w))) = Inr (Built r2)"
    and "files (snd (generate env sdk_id i n w)) (source_of env sdk_id)
           = files w (source_of env sdk_id)"
  shows "files (snd (generate env sdk_id j m (snd (generate env sdk_id i n w))))
           (build_json_path sdk_id)
         = files (snd (generate env sdk_id i n w)) (build_json_path sdk_id) \<and>
         files (snd (generate env sdk_id i n w)) (build_json_path sdk_id)
         = Some (dumps (build_json (service_key env w sdk_id)))"
proof -
  let ?w1 = "snd (generate env sdk_id i n w)"
  let ?w2 = "snd (generate env sdk_id j m ?w1)"
  note G1 = generate_Built_world[OF fst_generate_Built[OF assms(1)]]
  note G2 = generate_Built_world[OF fst_generate_Built[OF assms(2)]]
  have k: "service_key env ?w1 sdk_id = service_key env w sdk_id"
    using assms(3) by (simp add: service_key_def)
  have 1: "files ?w1 (build_json_path sdk_id) = Some (dumps (build_json (service_key env w sdk_id)))"
    unfolding G1(5) by (simp add: not_beneath_build workspace_paths_differ)
  have 2: "files ?w2 (build_json_path sdk_id) = Some (dumps (build_json (service_key env ?w1 sdk_id)))"
    unfolding G2(5) by (simp add: not_beneath_build workspace_paths_differ)
  from 1 2 k show ?thesis by simp
qed

text \<open>The unit \<open>s3\<close> of the concrete run, twice in a row.\<close>

theorem configuration_is_reproducible_witness:
  "fst (generate (example_env nothing_fails 0) ''s3'' 1 3 (example_world s3_text))
     = Inr (Built (s3_result ''success'')) \<and>
   fst (generate (example_env nothing_fails 0) ''s3'' 1 3
          (snd (generate (example_env nothing_fails 0) ''s3'' 1 3 (example_world s3_text))))
     = Inr (Built (s3_result ''success'')) \<and>
   files (snd (generate (example_env nothing_fails 0) ''s3'' 1 3 (example_world s3_text)))
     (source_of (example_env nothing_fails 0) ''s3'')
     = files (example_world s3_text) (source_of (example_env nothing_fails 0) ''s3'') \<and>
   files (snd (generate (example_env nothing_fails 0) ''s3'' 1 3
          (snd (generate (example_env nothing_fails 0) ''s3'' 1 3 (example_world s3_text)))))
     (build_json_path ''s3'')
     = files (snd (generate (example_env nothing_fails 0) ''s3'' 1 3 (example_world s3_text)))
         (build_json_path ''s3'')"
proof -
  let ?E = "example_env nothing_fails 0"
  let ?W = "example_world s3_text"
  have h1: "fst (generate ?E ''s3'' 1 3 ?W) = Inr (Built (s3_result ''success''))"
    by code_simp
  have h2: "fst (generate ?E ''s3'' 1 3 (snd (generate ?E ''s3'' 1 3 ?W)))
              = Inr (Built (s3_result ''success''))"
    by code_simp
  have h3: "files (snd (generate ?E ''s3'' 1 3 ?W)) (source_of ?E ''s3'')
              = files ?W (source_of ?E ''s3'')"
    by code_simp
  show ?thesis
    using h1 h2 h3 configuration_is_reproducible[OF h1 h2 h3] by blast
qed

section \<open>The claims about the scheduler\<close>

declare as_completed.simps [simp del]

lemma collect_reports:
  "\<exists>evs. trace (collect env total' futures w) = trace w @ evs \<and>
         map fst (reports evs) = map fst futures"
proof (induction futures arbitrary: w)
  case Nil
  then show ?case by simp
next
  case (Cons f futures)
  obtain sdk i where f: "f = (sdk, i)" by (cases f)
  obtain r w1 where g: "generate env sdk i total' w = (r, w1)"
    by (cases "generate env sdk i total' w")
  from generate_reports[of env sdk i total' w] g obtain evs1 where
    e1: "trace w1 = trace w @ evs1"
    and c1: "case r of Inl e \<Rightarrow> reports evs1 = []
             | Inr NoSource \<Rightarrow> reports evs1 = [(sdk, Skipped)]
             | Inr (Built result) \<Rightarrow>
                 reports evs1 = [(sdk, if map_of result ''build'' = Some ''success''
                                       then Succeeded else Failed)]"
    by auto
  show ?case
  proof (cases r)
    case (Inl e)
    let ?w2 = "emit (Printed (ErrorLine sdk e)) w1"
    from Cons.IH[of ?w2] obtain evs2 where
      e2: "trace (collect env total' futures ?w2) = trace ?w2 @ evs2"
      and m2: "map fst (reports evs2) = map fst futures" by blast
    have "trace (collect env total' (f # futures) w)
            = trace w @ (evs1 @ [Printed (ErrorLine sdk e)] @ evs2)"
      using f g Inl e1 e2 by (simp add: emit_def)
    moreover have "map fst (reports (evs1 @ [Printed (ErrorLine sdk e)] @ evs2)) = map fst (f # futures)"
      using c1 Inl m2 f by (simp add: reports_append)
    ultimately show ?thesis by blast
  next
    case (Inr out)
    from Cons.IH[of w1] obtain evs2 where
      e2: "trace (collect env total' futures w1) = trace w1 @ evs2"
      and m2: "map fst (reports evs2) = map fst futures" by blast
    have "trace (collect env total' (f # futures) w) = trace w @ (evs1 @ evs2)"
      using f g Inr e1 e2 by simp
    moreover have "map fst (reports (evs1 @ evs2)) = map fst (f # futures)"
      using c1 Inr m2 f by (cases out) (simp_all add: reports_append)
    ultimately show ?thesis by blast
  qed
qed

lemma mset_as_completed: "mset (as_completed picks futures) = mset futures"
proof (induction picks futures rule: as_completed.induct)
  case (1 picks futures)
  show ?case
  proof (cases "futures = []")
    case True
    then show ?thesis by (subst as_completed.simps) simp
  next
    case False
    show ?thesis
    proof (cases picks)
      case Nil
      then show ?thesis using False by (subst as_completed.simps) simp
    next
      case (Cons k ks)
      let ?i = "k mod length futures"
      have i: "?i < length futures" using False by simp
      have "as_completed picks futures
              = futures ! ?i # as_completed ks (take ?i futures @ drop (Suc ?i) futures)"
        using False Cons by (subst as_completed.simps) (simp add: Let_def)
      moreover have "mset (as_completed ks (take ?i futures @ drop (Suc ?i) futures))
                       = mset (take ?i futures @ drop (Suc ?i) futures)"
        using 1[OF False Cons refl] .
      moreover have "mset futures = mset (take ?i futures @ futures ! ?i # drop (Suc ?i) futures)"
        using id_take_nth_drop[OF i] by simp
      ultimately show ?thesis by simp
    qed
  qed
qed

lemma map_fst_zip_upt: "map fst (zip units [1..<Suc (length units)]) = units"
  by (rule map_fst_zip) (simp del: upt_Suc)

lemma run_summary:
  assumes "cpu_count env = Some cores" "0 < cores" "units \<noteq> []"
  defines "workers \<equiv> min (length units) (min (cores * 4) 64)"
  shows "run env units w =
           (Inr (),
            emit (Printed TotalTime)
              (emit (Printed (Using workers (Some cores) 64))
                (emit (Printed (Processing (length units)))
                  (collect env (length units)
                     (as_completed (completion env) (zip units [1..<Suc (length units)])) w))))"
proof -
  have "workers \<noteq> 0" using assms(2,3) by (simp add: workers_def)
  then show ?thesis using assms(1)
    by (simp add: run_def max_workers_def Let_def workers_def)
qed

text \<open>
  Claim C6. An exception raised inside the pipeline of a unit is caught in the loop over
  the completed tasks and printed with the unit and the exception; it reaches no other
  unit and does not end the run: every task after it is still collected and reported,
  and the run returns normally.
\<close>

theorem unit_exception_is_caught:
  assumes "fst (generate env sdk_id index total' w) = Inl e"
    and "cpu_count env = Some cores" "0 < cores" "units \<noteq> []"
  shows "collect env total' ((sdk_id, index) # futures) w
           = collect env total' futures
               (emit (Printed (ErrorLine sdk_id e)) (snd (generate env sdk_id index total' w))) \<and>
         reports (new_events w
             (emit (Printed (ErrorLine sdk_id e)) (snd (generate env sdk_id index total' w))))
           = [(sdk_id, Errored)] \<and>
         map fst (reports (new_events w (collect env total' ((sdk_id, index) # futures) w)))
           = sdk_id # map fst futures \<and>
         fst (run env units w0) = Inr ()"
proof -
  obtain w1 where g: "generate env sdk_id index total' w = (Inl e, w1)"
    using assms(1) by (cases "generate env sdk_id index total' w") auto
  have s: "snd (generate env sdk_id index total' w) = w1"
    by (simp add: g)
  have 1: "collect env total' ((sdk_id, index) # futures) w
             = collect env total' futures (emit (Printed (ErrorLine sdk_id e)) w1)"
    by (simp add: g)
  from generate_reports[of env sdk_id index total' w] obtain evs where
    e: "trace w1 = trace w @ evs" and r: "reports evs = []"
    unfolding g by auto
  have "trace (emit (Printed (ErrorLine sdk_id e)) w1) = trace w @ (evs @ [Printed (ErrorLine sdk_id e)])"
    using e by (simp add: emit_def)
  then have "new_events w (emit (Printed (ErrorLine sdk_id e)) w1) = evs @ [Printed (ErrorLine sdk_id e)]"
    by (rule new_events_append)
  then have 2: "reports (new_events w (emit (Printed (ErrorLine sdk_id e)) w1)) = [(sdk_id, Errored)]"
    using r by (simp add: reports_append)
  from collect_reports[of env total' "(sdk_id, index) # futures" w] obtain evs' where
    "trace (collect env total' ((sdk_id, index) # futures) w) = trace w @ evs'"
    and m: "map fst (reports evs') = map fst ((sdk_id, index) # futures)" by blast
  then have "new_events w (collect env total' ((sdk_id, index) # futures) w) = evs'"
    by (simp add: new_events_append)
  then have 3: "map fst (reports (new_events w (collect env total' ((sdk_id, index) # futures) w)))
                  = sdk_id # map fst futures"
    using m by simp
  have 4: "fst (run env units w0) = Inr ()"
    unfolding run_summary[OF assms(2,3,4)] by simp
  from 1 2 3 4 show ?thesis unfolding s by blast
qed

text \<open>The concrete run with a description that is not JSON: \<open>json.load\<close> raises in the unit \<open>s3\<close>.\<close>

theorem unit_exception_is_caught_witness:
  "fst (generate (example_env nothing_fails 0) ''s3'' 1 3 (example_world ''not json''))
     = Inl JSONDecodeError \<and>
   cpu_count (example_env nothing_fails 0) = Some 2 \<and> (0::nat) < 2 \<and> sdks \<noteq> [] \<and>
   (collect (example_env nothing_fails 0) 3 [(''s3'', 1), (''dynamodb'', 2), (''ec2'', 3)]
      (example_world ''not json'')
      = collect (example_env nothing_fails 0) 3 [(''dynamodb'', 2), (''ec2'', 3)]
          (emit (Printed (ErrorLine ''s3'' JSONDecodeError))
             (snd (generate (example_env nothing_fails 0) ''s3'' 1 3 (example_world ''not json'')))) \<and>
    reports (new_events (example_world ''not json'')
       (emit (Printed (ErrorLine ''s3'' JSONDecodeError))
          (snd (generate (example_env nothing_fails 0) ''s3'' 1 3 (example_world ''not json'')))))
      = [(''s3'', Errored)] \<and>
    map fst (reports (new_events (example_world ''not json'')
       (collect (example_env nothing_fails 0) 3 [(''s3'', 1), (''dynamodb'', 2), (''ec2'', 3)]
          (example_world ''not json''))))
      = ''s3'' # map fst [(''dynamodb'', 2::nat), (''ec2'', 3)] \<and>
    fst (run (example_env nothing_fails 0) sdks (example_world ''not json'')) = Inr ())"
proof -
  have h: "fst (generate (example_env nothing_fails 0) ''s3'' 1 3 (example_world ''not json''))
             = Inl JSONDecodeError"
    by code_simp
  have c: "cpu_count (example_env nothing_fails 0) = Some 2"
    by (simp add: example_env_def)
  have p: "(0::nat) < 2" by simp
  have n: "sdks \<noteq> []" by (simp add: sdks_def)
  show ?thesis
    by (rule conjI[OF h conjI[OF c conjI[OF p conjI[OF n
          unit_exception_is_caught[OF h c p n]]]]])
qed

text \<open>
  Claim C7. In every run that sets up its pool, each submitted unit is reported with
  exactly one terminal outcome (Succeeded, Failed, Skipped or Errored), there are as many
  terminal reports as submitted units, and the three lines of the summary come after
  all of them.
\<close>

theorem every_unit_reported_before_summary:
  assumes "cpu_count env = Some cores" "0 < cores" "units \<noteq> []"
  shows "\<exists>pre. new_events w (snd (run env units w)) =
                 pre @ [Printed (Processing (length units)),
                        Printed (Using (min (length units) (min (cores * 4) 64)) (Some cores) 64),
                        Printed TotalTime] \<and>
               mset (map fst (reports pre)) = mset units \<and>
               length (reports pre) = length units \<and>
               reports (new_events w (snd (run env units w))) = reports pre"
proof -
  let ?futures = "as_completed (completion env) (zip units [1..<Suc (length units)])"
  let ?summary = "[Printed (Processing (length units)),
                   Printed (Using (min (length units) (min (cores * 4) 64)) (Some cores) 64),
                   Printed TotalTime]"
  from collect_reports[of env "length units" ?futures w] obtain pre where
    t: "trace (collect env (length units) ?futures w) = trace w @ pre"
    and m: "map fst (reports pre) = map fst ?futures" by blast
  have "trace (snd (run env units w)) = trace w @ (pre @ ?summary)"
    unfolding run_summary[OF assms] using t by (simp add: emit_def)
  then have ev: "new_events w (snd (run env units w)) = pre @ ?summary"
    by (rule new_events_append)
  have "mset (map fst ?futures) = image_mset fst (mset ?futures)" by simp
  also have "\<dots> = image_mset fst (mset (zip units [1..<Suc (length units)]))"
    by (simp only: mset_as_completed)
  also have "\<dots> = mset (map fst (zip units [1..<Suc (length units)]))" by simp
  also have "\<dots> = mset units" by (simp only: map_fst_zip_upt)
  finally have ms: "mset (map fst (reports pre)) = mset units" using m by simp
  have "length (map fst (reports pre)) = length units"
    using ms by (metis size_mset)
  then have len: "length (reports pre) = length units" by simp
  have "reports (pre @ ?summary) = reports pre"
    by (simp add: reports_append)
  with ev ms len show ?thesis by auto
qed

text \<open>The concrete run of \<open>main\<close>: three units, two cores, three workers.\<close>

theorem every_unit_reported_before_summary_witness:
  "cpu_count (example_env nothing_fails 0) = Some 2 \<and> (0::nat) < 2 \<and> sdks \<noteq> [] \<and>
   (\<exists>pre. new_events (example_world s3_text)
             (snd (main (example_env nothing_fails 0) (example_world s3_text))) =
           pre @ [Printed (Processing 3), Printed (Using 3 (Some 2) 64), Printed TotalTime] \<and>
         mset (map fst (reports pre)) = mset sdks \<and>
         length (reports pre) = 3)"
proof -
  have c: "cpu_count (example_env nothing_fails 0) = Some 2"
    by (simp add: example_env_def)
  have p: "(0::nat) < 2" by simp
  have n: "sdks \<noteq> []" by (simp add: sdks_def)
  have l: "length sdks = 3" by (simp add: sdks_def)
  from every_unit_reported_before_summary[OF c p n, of "example_world s3_text"]
  obtain pre where
    "new_events (example_world s3_text)
        (snd (run (example_env nothing_fails 0) sdks (example_world s3_text))) =
       pre @ [Printed (Processing (length sdks)),
              Printed (Using (min (length sdks) (min (2 * 4) 64)) (Some 2) 64),
              Printed TotalTime]"
    "mset (map fst (reports pre)) = mset sdks" "length (reports pre) = length sdks"
    by blast
  then have "new_events (example_world s3_text)
             (snd (main (example_env nothing_fails 0) (example_world s3_text))) =
           pre @ [Printed (Processing 3), Printed (Using 3 (Some 2) 64), Printed TotalTime] \<and>
         mset (map fst (reports pre)) = mset sdks \<and>
         length (reports pre) = 3"
    by (simp add: main_def l)
  then show ?thesis using c p n by blast
qed

text \<open>
  Claim C8. The size of the pool is the minimum of the number of units, four times the
  number of cores, and 64. It is computed once, before any unit starts: the same value
  decides whether the pool can be made and is printed in the summary.
\<close>

theorem pool_size:
  assumes "cpu_count env = Some cores"
  shows "max_workers env units = Inr (min (length units) (min (4 * cores) 64)) \<and>
         run env units w =
           (if min (length units) (min (4 * cores) 64) = 0 then (Inl ValueError, w)
            else (Inr (),
                  emit (Printed TotalTime)
                    (emit (Printed (Using (min (length units) (min (4 * cores) 64)) (Some cores) 64))
                      (emit (Printed (Processing (length units)))
                        (collect env (length units)
                           (as_completed (completion env) (zip units [1..<Suc (length units)]))
                           w)))))"
proof -
  have m: "max_workers env units = Inr (min (length units) (min (4 * cores) 64))"
    using assms by (simp add: max_workers_def mult.commute)
  show ?thesis
    unfolding run_def m Let_def by (simp only: sum.case assms simp_thms)
qed

text \<open>With two cores the three units of \<open>sdks\<close> get three workers, and a hundred units get eight.\<close>

theorem pool_size_witness:
  "cpu_count (example_env nothing_fails 0) = Some 2 \<and>
   max_workers (example_env nothing_fails 0) sdks = Inr 3 \<and>
   max_workers (example_env nothing_fails 0) (replicate 100 ''s3'') = Inr 8"
proof -
  have c: "cpu_count (example_env nothing_fails 0) = Some 2"
    by (simp add: example_env_def)
  show ?thesis
    using c pool_size[OF c, of sdks] pool_size[OF c, of "replicate 100 ''s3''"]
    by (simp add: sdks_def)
qed

end
